theory Spec2Isabelle
  imports Main
begin

section \<open>The room server of server/socket.js\<close>

text \<open>
  The server keeps four module-level dictionaries (\<open>userSocketMap\<close>, \<open>roomCodeMap\<close>,
  \<open>roomUsers\<close>, \<open>roomMessages\<close>) and reacts to the events of each connected socket. A
  handler is embedded as a function from the state before to its outcome: the state it
  leaves, the events it emitted, and the error it raised, if any. The JavaScript runs every
  handler to completion before the next one starts, so a run of the server is a sequence of
  such steps.
\<close>

subsection \<open>Values and payloads\<close>

text \<open>
  The fields of a payload are strings, or \<open>undefined\<close> when the client left them out.
  \<open>truthy\<close> is the test an \<open>if (v)\<close> makes; \<open>key_of\<close> is the property name under which
  \<open>obj[v]\<close> reads and writes a plain object.
\<close>

datatype jsval = Undefined | Str string

fun truthy :: "jsval \<Rightarrow> bool" where
  "truthy Undefined = False"
| "truthy (Str s) = (s \<noteq> [])"

fun key_of :: "jsval \<Rightarrow> string" where
  "key_of Undefined = ''undefined''"
| "key_of (Str s) = s"

text \<open>
  The dictionaries keyed by room are plain objects (\<open>{}\<close>), so \<open>obj[key]\<close> finds, besides
  the properties the server assigned, the ones every object inherits from
  \<open>Object.prototype\<close>: functions, and under \<open>__proto__\<close> the prototype itself. All of them
  are truthy and none has the methods of a \<open>Set\<close> or an array. What a read finds is
  either a value of the dictionary (\<open>undefined\<close> when there is none) or the inherited
  property of that name.
\<close>

definition inherited_names :: "string list" where
  "inherited_names =
     [''constructor'', ''__defineGetter__'', ''__defineSetter__'', ''hasOwnProperty'',
      ''__lookupGetter__'', ''__lookupSetter__'', ''isPrototypeOf'', ''propertyIsEnumerable'',
      ''toString'', ''valueOf'', ''__proto__'', ''toLocaleString'']"

definition inherited :: "string \<Rightarrow> bool" where
  "inherited k \<longleftrightarrow> k \<in> set inherited_names"

datatype 'a lookup = Value 'a | Inherited string

fun truthy_lookup :: "jsval lookup \<Rightarrow> bool" where
  "truthy_lookup (Value v) = truthy v"
| "truthy_lookup (Inherited k) = True"

text \<open>The object \<open>{ id, username, message, timestamp }\<close> built by the send-message handler.\<close>

record message =
  m_id :: int
  m_username :: jsval
  m_message :: jsval
  m_timestamp :: string

text \<open>The object \<open>{ socketId, username }\<close> of a member list.\<close>

record client =
  c_socketId :: string
  c_username :: jsval

text \<open>
  The events the server emits. A code-change carries the code of the payload it relays or
  what a read of \<open>roomCodeMap\<close> found; the answer to fetch-messages carries what the read of
  \<open>roomMessages\<close> found.
\<close>

datatype payload =
    JOINED "client list" jsval string
  | CODE_CHANGE "jsval lookup"
  | RECEIVE_MESSAGE message
  | FETCH_MESSAGES "message list lookup"
  | DISCONNECTED string jsval

text \<open>
  An emitted event: how it was addressed (\<open>io.to(room)\<close>, \<open>socket.to(room)\<close> or
  \<open>socket.emit\<close>), the connections it is delivered to, and its payload.
\<close>

datatype target = ToRoom jsval | ToRoomExcept jsval string | ToSocket string

record emission =
  target :: target
  recipients :: "string list"
  payload :: payload

subsection \<open>The state\<close>

text \<open>
  The four dictionaries of the module, and the part of socket.io the handlers read:
  \<open>rooms\<close> is \<open>io.sockets.adapter.rooms\<close> (the connections of each room, in the order they
  joined, the empty list for a room that does not exist), \<open>socket_rooms\<close> is \<open>socket.rooms\<close>
  of each connection, \<open>sockets\<close> is \<open>io.sockets.sockets\<close>.

  Each dictionary is the map of the properties the server assigned: a key is present once
  it was assigned, even when the value assigned is \<open>undefined\<close>. The inherited properties
  are added by the reads below. \<open>userSocketMap\<close> is keyed by connection ids, which socket.io
  draws at random: the model takes them not to be inherited property names. The rooms of
  socket.io are kept in a \<open>Map\<close>, whose keys are the values themselves, so the room
  \<open>undefined\<close> and the room named \<open>''undefined''\<close> differ there, while they share their
  entries in the dictionaries.
\<close>

record server =
  userSocketMap :: "string \<rightharpoonup> jsval"
  roomCodeMap :: "string \<rightharpoonup> jsval"
  roomUsers :: "string \<rightharpoonup> jsval set"
  roomMessages :: "string \<rightharpoonup> message list"
  rooms :: "jsval \<Rightarrow> string list"
  socket_rooms :: "string \<Rightarrow> jsval list"
  sockets :: "string set"

definition init :: server where
  "init = \<lparr>userSocketMap = Map.empty, roomCodeMap = Map.empty, roomUsers = Map.empty,
            roomMessages = Map.empty, rooms = (\<lambda>_. []), socket_rooms = (\<lambda>_. []),
            sockets = {}\<rparr>"

text \<open>
  The handlers raise no error of their own; what can fail is a call of a method that the
  value read does not have, or the destructuring of a payload that is not there. Both are
  a \<open>TypeError\<close>. The state keeps what the handler did before the error.
\<close>

datatype error = TypeError

record outcome =
  after :: server
  emitted :: "emission list"
  raised :: "error option"

definition returns :: "server \<Rightarrow> emission list \<Rightarrow> outcome" where
  "returns s out = \<lparr>after = s, emitted = out, raised = None\<rparr>"

definition throws :: "server \<Rightarrow> emission list \<Rightarrow> outcome" where
  "throws s out = \<lparr>after = s, emitted = out, raised = Some TypeError\<rparr>"

text \<open>Reading \<open>userSocketMap[sid]\<close>: a missing key reads \<open>undefined\<close>.\<close>

definition user_of :: "server \<Rightarrow> string \<Rightarrow> jsval" where
  "user_of s sid = (case userSocketMap s sid of None \<Rightarrow> Undefined | Some u \<Rightarrow> u)"

text \<open>
  Reading \<open>roomCodeMap[roomId]\<close> and \<open>roomMessages[roomId] || []\<close>. Assigning
  \<open>roomCodeMap[roomId] = code\<close>: under the name \<open>__proto__\<close> the assignment of a string or of
  \<open>undefined\<close> is ignored by the setter the object inherits.
\<close>

definition code_of :: "server \<Rightarrow> jsval \<Rightarrow> jsval lookup" where
  "code_of s roomId =
     (case roomCodeMap s (key_of roomId) of
        Some c \<Rightarrow> Value c
      | None \<Rightarrow> if inherited (key_of roomId) then Inherited (key_of roomId) else Value Undefined)"

definition messages_read :: "server \<Rightarrow> jsval \<Rightarrow> message list lookup" where
  "messages_read s roomId =
     (case roomMessages s (key_of roomId) of
        Some l \<Rightarrow> Value l
      | None \<Rightarrow> if inherited (key_of roomId) then Inherited (key_of roomId) else Value [])"

definition store_code :: "server \<Rightarrow> jsval \<Rightarrow> jsval \<Rightarrow> server" where
  "store_code s roomId code =
     (if key_of roomId = ''__proto__'' then s
      else s\<lparr>roomCodeMap := (roomCodeMap s)(key_of roomId \<mapsto> code)\<rparr>)"

text \<open>The log and the membership set the server holds for a room, empty when it holds none.\<close>

definition messages_of :: "server \<Rightarrow> jsval \<Rightarrow> message list" where
  "messages_of s roomId = (case roomMessages s (key_of roomId) of None \<Rightarrow> [] | Some l \<Rightarrow> l)"

definition members_of :: "server \<Rightarrow> jsval \<Rightarrow> jsval set" where
  "members_of s roomId = (case roomUsers s (key_of roomId) of None \<Rightarrow> {} | Some U \<Rightarrow> U)"

subsection \<open>socket.io\<close>

text \<open>
  \<open>socket.join(room)\<close> adds the connection to the room, once; \<open>socket.leave(room)\<close> removes
  it. \<open>io.to(room).emit\<close> delivers to every connection of the room. \<open>socket.to(room).emit\<close>
  leaves out the room named by the socket's own id: it delivers to the connections of the
  room that are not in that room. \<open>socket.emit\<close> delivers to the socket alone. A new
  connection joins the room named by its own id; a closed one leaves every room.
\<close>

definition socket_join :: "server \<Rightarrow> string \<Rightarrow> jsval \<Rightarrow> server" where
  "socket_join s sid room =
     s\<lparr>rooms := (rooms s)(room := (if sid \<in> set (rooms s room) then rooms s room
                                      else rooms s room @ [sid])),
       socket_rooms := (socket_rooms s)(sid := (if room \<in> set (socket_rooms s sid)
                                                  then socket_rooms s sid
                                                  else socket_rooms s sid @ [room]))\<rparr>"

definition socket_leave :: "server \<Rightarrow> string \<Rightarrow> jsval \<Rightarrow> server" where
  "socket_leave s sid room =
     s\<lparr>rooms := (rooms s)(room := removeAll sid (rooms s room)),
       socket_rooms := (socket_rooms s)(sid := removeAll room (socket_rooms s sid))\<rparr>"

definition io_to :: "server \<Rightarrow> jsval \<Rightarrow> payload \<Rightarrow> emission" where
  "io_to s room p = \<lparr>target = ToRoom room, recipients = rooms s room, payload = p\<rparr>"

definition socket_to :: "server \<Rightarrow> string \<Rightarrow> jsval \<Rightarrow> payload \<Rightarrow> emission" where
  "socket_to s sid room p =
     \<lparr>target = ToRoomExcept room sid,
      recipients = filter (\<lambda>c. c \<notin> set (rooms s (Str sid))) (rooms s room),
      payload = p\<rparr>"

definition socket_emit :: "string \<Rightarrow> payload \<Rightarrow> emission" where
  "socket_emit sid p = \<lparr>target = ToSocket sid, recipients = [sid], payload = p\<rparr>"

definition connection :: "server \<Rightarrow> string \<Rightarrow> server" where
  "connection s sid = socket_join (s\<lparr>sockets := insert sid (sockets s)\<rparr>) sid (Str sid)"

definition transport_close :: "server \<Rightarrow> string \<Rightarrow> server" where
  "transport_close s sid =
     s\<lparr>rooms := (\<lambda>room. removeAll sid (rooms s room)),
       socket_rooms := (socket_rooms s)(sid := []),
       sockets := sockets s - {sid}\<rparr>"

subsection \<open>getAllConnectedClients\<close>

text \<open>
  \<open>uniqueUsers.set(username, v)\<close> on a JavaScript \<open>Map\<close>: an existing key keeps its place and
  takes the new value, a new key goes to the end.
\<close>

fun uniqueUsers_set :: "(jsval \<times> client) list \<Rightarrow> jsval \<Rightarrow> client \<Rightarrow> (jsval \<times> client) list" where
  "uniqueUsers_set [] k v = [(k, v)]"
| "uniqueUsers_set ((k', v') # kvs) k v =
     (if k' = k then (k, v) # kvs else (k', v') # uniqueUsers_set kvs k v)"

fun collect_clients :: "server \<Rightarrow> string list \<Rightarrow> (jsval \<times> client) list \<Rightarrow> (jsval \<times> client) list" where
  "collect_clients s [] uniqueUsers = uniqueUsers"
| "collect_clients s (socketId # rest) uniqueUsers =
     collect_clients s rest
       (if truthy (user_of s socketId)
        then uniqueUsers_set uniqueUsers (user_of s socketId)
               \<lparr>c_socketId = socketId, c_username = user_of s socketId\<rparr>
        else uniqueUsers)"

definition getAllConnectedClients :: "server \<Rightarrow> jsval \<Rightarrow> client list" where
  "getAllConnectedClients s roomId = map snd (collect_clients s (rooms s roomId) [])"

subsection \<open>The handlers\<close>

text \<open>
  The loop of the join handler over \<open>existingSockets\<close>, a copy of the room's connections taken
  before the loop: a connection registered under the joining username, still connected and
  not the joining socket itself, leaves the room and loses its \<open>userSocketMap\<close> entry.
\<close>

fun evict :: "string \<Rightarrow> jsval \<Rightarrow> jsval \<Rightarrow> string list \<Rightarrow> server \<Rightarrow> server" where
  "evict sid roomId uname [] s = s"
| "evict sid roomId uname (existingSocketId # rest) s =
     evict sid roomId uname rest
       (if user_of s existingSocketId = uname
        then (if existingSocketId \<in> sockets s \<and> existingSocketId \<noteq> sid
              then (socket_leave s existingSocketId roomId)
                     \<lparr>userSocketMap := (userSocketMap s)(existingSocketId := None)\<rparr>
              else s)
        else s)"

text \<open>
  The join handler. \<open>roomUsers[roomId].add(username)\<close> is a call on what the read of
  \<open>roomUsers\<close> finds: when the room has no set of its own and its name is inherited, the
  read finds the inherited property, no set is created, and the call raises. The eviction,
  the registration and \<open>socket.join\<close> have been done by then; nothing has been emitted.
\<close>

definition join :: "server \<Rightarrow> string \<Rightarrow> jsval \<Rightarrow> jsval \<Rightarrow> outcome" where
  "join s sid roomId uname =
     (let s1 = evict sid roomId uname (rooms s roomId) s;
          s2 = s1\<lparr>userSocketMap := (userSocketMap s1)(sid \<mapsto> uname)\<rparr>;
          s3 = socket_join s2 sid roomId
      in if roomUsers s3 (key_of roomId) = None \<and> inherited (key_of roomId)
         then throws s3 []
         else
           (let s4 = s3\<lparr>roomUsers := (roomUsers s3)(key_of roomId \<mapsto> insert uname (members_of s3 roomId))\<rparr>;
                clients = getAllConnectedClients s4 roomId;
                joined = [io_to s4 roomId (JOINED clients uname sid)];
                code = (if truthy_lookup (code_of s4 roomId)
                        then [socket_emit sid (CODE_CHANGE (code_of s4 roomId))] else []);
                s5 = (if roomMessages s4 (key_of roomId) = None \<and> \<not> inherited (key_of roomId)
                      then s4\<lparr>roomMessages := (roomMessages s4)(key_of roomId \<mapsto> [])\<rparr>
                      else s4)
            in returns s5 (joined @ code)))"

definition code_change :: "server \<Rightarrow> string \<Rightarrow> jsval \<Rightarrow> jsval \<Rightarrow> outcome" where
  "code_change s sid roomId code =
     returns (store_code s roomId code) [socket_to s sid roomId (CODE_CHANGE (Value code))]"

definition sync_code :: "server \<Rightarrow> jsval \<Rightarrow> jsval \<Rightarrow> jsval \<Rightarrow> outcome" where
  "sync_code s socketId roomId code =
     (let s1 = (if code \<noteq> Undefined then store_code s roomId code else s)
      in returns s1 (if truthy_lookup (code_of s1 roomId)
                     then [io_to s1 socketId (CODE_CHANGE (code_of s1 roomId))] else []))"

text \<open>\<open>xs.slice(-100)\<close>: the last 100 elements, all of them when there are fewer.\<close>

definition slice_last :: "nat \<Rightarrow> 'a list \<Rightarrow> 'a list" where
  "slice_last n xs = drop (length xs - n) xs"

text \<open>
  The send-message handler reads the clock twice, for \<open>Date.now()\<close> and for
  \<open>new Date().toISOString()\<close>; the two readings are parameters. \<open>roomMessages[roomId].push\<close>
  is a call on what the read finds: for a room without a log of its own whose name is
  inherited, no log is created and the call raises, before anything is stored or emitted.
\<close>

definition send_message ::
  "server \<Rightarrow> jsval \<Rightarrow> jsval \<Rightarrow> jsval \<Rightarrow> int \<Rightarrow> string \<Rightarrow> outcome" where
  "send_message s roomId msg uname now stamp =
     (let messageData = \<lparr>m_id = now, m_username = uname, m_message = msg, m_timestamp = stamp\<rparr>
      in if roomMessages s (key_of roomId) = None \<and> inherited (key_of roomId)
         then throws s []
         else
           (let pushed = messages_of s roomId @ [messageData];
                kept = (if length pushed > 100 then slice_last 100 pushed else pushed)
            in returns (s\<lparr>roomMessages := (roomMessages s)(key_of roomId \<mapsto> kept)\<rparr>)
                 [io_to s roomId (RECEIVE_MESSAGE messageData)]))"

definition fetch_messages :: "server \<Rightarrow> string \<Rightarrow> jsval \<Rightarrow> outcome" where
  "fetch_messages s sid roomId =
     returns s [socket_emit sid (FETCH_MESSAGES (messages_read s roomId))]"

text \<open>
  The disconnecting handler: the test, the body of the loop for one room, the loop.
  \<open>roomUsers[roomId].delete(username)\<close> is a call on what the read of \<open>roomUsers\<close> finds:
  for a room without a set whose name is inherited it raises, after the disconnected event
  was emitted. An error ends the loop, and the last statement of the handler, which deletes
  the connection's \<open>userSocketMap\<close> entry, is not reached.
\<close>

definition hasOtherConnections :: "server \<Rightarrow> string \<Rightarrow> jsval \<Rightarrow> bool" where
  "hasOtherConnections s sid roomId =
     list_ex (\<lambda>c. c \<noteq> sid \<and> user_of s c = user_of s sid) (rooms s roomId)"

definition disconnecting_room :: "server \<Rightarrow> string \<Rightarrow> jsval \<Rightarrow> outcome" where
  "disconnecting_room s sid roomId =
     (if roomId \<noteq> Str sid \<and> \<not> hasOtherConnections s sid roomId
      then (case roomUsers s (key_of roomId) of
              None \<Rightarrow>
                if inherited (key_of roomId)
                then throws s [socket_to s sid roomId (DISCONNECTED sid (user_of s sid))]
                else returns s [socket_to s sid roomId (DISCONNECTED sid (user_of s sid))]
            | Some U \<Rightarrow>
                returns
                  (if U - {user_of s sid} = {}
                   then s\<lparr>roomUsers := (roomUsers s)(key_of roomId := None),
                          roomCodeMap := (roomCodeMap s)(key_of roomId := None),
                          roomMessages := (roomMessages s)(key_of roomId := None)\<rparr>
                   else s\<lparr>roomUsers := (roomUsers s)(key_of roomId \<mapsto> U - {user_of s sid})\<rparr>)
                  [socket_to s sid roomId (DISCONNECTED sid (user_of s sid))])
      else returns s [])"

fun disconnecting_loop :: "string \<Rightarrow> jsval list \<Rightarrow> server \<Rightarrow> outcome" where
  "disconnecting_loop sid [] s = returns s []"
| "disconnecting_loop sid (roomId # rest) s =
     (let o1 = disconnecting_room s sid roomId
      in if raised o1 \<noteq> None then o1
         else (let o2 = disconnecting_loop sid rest (after o1)
               in o2\<lparr>emitted := emitted o1 @ emitted o2\<rparr>))"

definition disconnecting :: "server \<Rightarrow> string \<Rightarrow> outcome" where
  "disconnecting s sid =
     (let o1 = disconnecting_loop sid (socket_rooms s sid) s
      in if raised o1 \<noteq> None then o1
         else o1\<lparr>after := (after o1)\<lparr>userSocketMap := (userSocketMap (after o1))(sid := None)\<rparr>\<rparr>)"

subsection \<open>Runs of the server\<close>

text \<open>
  What reaches the server: a new connection, an event sent by a connection, the close of a
  connection. The first argument of each event is the id of the connection it comes from;
  a send-message carries the two clock readings its handler will make. An event can also
  arrive with no payload at all: every handler but disconnecting destructures its payload
  in its parameter list, which raises before the body runs.

  The handlers of a socket are registered when it connects and fire only while it is
  connected; connection ids are not reused while the connection is open. On close,
  socket.io fires \<open>disconnecting\<close> and then, unless the handler raised, takes the socket out
  of its rooms. A run goes on after an error, from the state the failed handler left, and
  reports the first error raised.
\<close>

datatype handler = OnJoin | OnCodeChange | OnSyncCode | OnSendMessage | OnFetchMessages

datatype event =
    Connection string
  | Join string jsval jsval
  | CodeChange string jsval jsval
  | SyncCode string jsval jsval jsval
  | SendMessage string jsval jsval jsval int string
  | FetchMessages string jsval
  | NoPayload string handler
  | Disconnect string

definition disconnect :: "server \<Rightarrow> string \<Rightarrow> outcome" where
  "disconnect s sid =
     (let o1 = disconnecting s sid
      in if raised o1 \<noteq> None then o1 else o1\<lparr>after := transport_close (after o1) sid\<rparr>)"

fun sender :: "event \<Rightarrow> string" where
  "sender (Connection sid) = sid"
| "sender (Join sid _ _) = sid"
| "sender (CodeChange sid _ _) = sid"
| "sender (SyncCode sid _ _ _) = sid"
| "sender (SendMessage sid _ _ _ _ _) = sid"
| "sender (FetchMessages sid _) = sid"
| "sender (NoPayload sid _) = sid"
| "sender (Disconnect sid) = sid"

fun handle :: "server \<Rightarrow> event \<Rightarrow> outcome" where
  "handle s (Connection sid) = returns (connection s sid) []"
| "handle s (Join sid roomId uname) = join s sid roomId uname"
| "handle s (CodeChange sid roomId code) = code_change s sid roomId code"
| "handle s (SyncCode sid socketId roomId code) = sync_code s socketId roomId code"
| "handle s (SendMessage sid roomId msg uname now stamp) = send_message s roomId msg uname now stamp"
| "handle s (FetchMessages sid roomId) = fetch_messages s sid roomId"
| "handle s (NoPayload sid h) = throws s []"
| "handle s (Disconnect sid) = disconnect s sid"

definition step :: "server \<Rightarrow> event \<Rightarrow> outcome" where
  "step s ev =
     (case ev of
        Connection sid \<Rightarrow> (if sid \<in> sockets s then returns s [] else handle s ev)
      | _ \<Rightarrow> (if sender ev \<in> sockets s then handle s ev else returns s []))"

fun run :: "server \<Rightarrow> event list \<Rightarrow> outcome" where
  "run s [] = returns s []"
| "run s (ev # evs) =
     (let o1 = step s ev;
          o2 = run (after o1) evs
      in \<lparr>after = after o2, emitted = emitted o1 @ emitted o2,
          raised = (if raised o1 \<noteq> None then raised o1 else raised o2)\<rparr>)"

subsection \<open>Sequences of calls and deliveries\<close>

text \<open>
  The message a send-message call builds from its arguments and the two clock readings, and
  a sequence of such calls to one room.
\<close>

definition messageData_of :: "jsval \<times> jsval \<times> int \<times> string \<Rightarrow> message" where
  "messageData_of call = (case call of (msg, uname, now, stamp) \<Rightarrow>
     \<lparr>m_id = now, m_username = uname, m_message = msg, m_timestamp = stamp\<rparr>)"

fun send_all :: "server \<Rightarrow> jsval \<Rightarrow> (jsval \<times> jsval \<times> int \<times> string) list \<Rightarrow> server" where
  "send_all s roomId [] = s"
| "send_all s roomId ((msg, uname, now, stamp) # calls) =
     send_all (after (send_message s roomId msg uname now stamp)) roomId calls"

text \<open>The connections that a list of emitted events is delivered to.\<close>

definition receivers :: "emission list \<Rightarrow> string list" where
  "receivers out = concat (map recipients out)"

subsection \<open>Notions used by the properties\<close>

text \<open>
  A room has no state left when none of \<open>roomUsers\<close>, \<open>roomCodeMap\<close> and \<open>roomMessages\<close> has an
  entry for it.
\<close>

definition no_room_state :: "server \<Rightarrow> jsval \<Rightarrow> bool" where
  "no_room_state s roomId \<longleftrightarrow>
     roomUsers s (key_of roomId) = None \<and> roomCodeMap s (key_of roomId) = None \<and>
     roomMessages s (key_of roomId) = None"

text \<open>
  A connection is registered to a username in a room when it is one of the room's
  connections and \<open>userSocketMap\<close> gives it that username: the test both the join handler and
  the disconnecting handler make.
\<close>

definition registered :: "server \<Rightarrow> string \<Rightarrow> jsval \<Rightarrow> jsval \<Rightarrow> bool" where
  "registered s c roomId uname \<longleftrightarrow> c \<in> set (rooms s roomId) \<and> user_of s c = uname"

text \<open>\<open>joins c ev\<close>: the event is a join sent by connection \<open>c\<close>.\<close>

fun joins :: "string \<Rightarrow> event \<Rightarrow> bool" where
  "joins c (Join sid _ _) = (sid = c)"
| "joins c _ = False"

text \<open>
  The events of two connections that connect, join one room under one username, and
  disconnect.
\<close>

fun two_connection_event :: "string \<Rightarrow> string \<Rightarrow> jsval \<Rightarrow> jsval \<Rightarrow> event \<Rightarrow> bool" where
  "two_connection_event c1 c2 roomId uname (Connection sid) = (sid = c1 \<or> sid = c2)"
| "two_connection_event c1 c2 roomId uname (Join sid r u) =
     ((sid = c1 \<or> sid = c2) \<and> r = roomId \<and> u = uname)"
| "two_connection_event c1 c2 roomId uname (Disconnect sid) = (sid = c1 \<or> sid = c2)"
| "two_connection_event c1 c2 roomId uname _ = False"

text \<open>Two invariants of the runs, used in the proofs below.\<close>

definition rooms_ok :: "server \<Rightarrow> bool" where
  "rooms_ok s \<longleftrightarrow>
     (\<forall>k U. roomUsers s k = Some U \<longrightarrow> U \<noteq> {} \<and> roomMessages s k \<noteq> None)"

definition two_inv :: "string \<Rightarrow> string \<Rightarrow> jsval \<Rightarrow> jsval \<Rightarrow> server \<Rightarrow> bool" where
  "two_inv c1 c2 roomId uname s \<longleftrightarrow>
     set (rooms s roomId) \<subseteq> {c1, c2}
   \<and> (\<forall>c \<in> set (rooms s roomId). user_of s c = uname \<and> c \<in> sockets s)
   \<and> (\<forall>c \<in> {c1, c2}. (roomId \<in> set (socket_rooms s c)) = (c \<in> set (rooms s roomId)))
   \<and> (\<forall>c \<in> {c1, c2}. set (socket_rooms s c) \<subseteq> {Str c, roomId})
   \<and> members_of s roomId = (if rooms s roomId = [] then {} else {uname})"

subsection \<open>Some runs\<close>

text \<open>
  \<open>s_a\<close>: one connection, nothing joined. \<open>s_ab\<close>: two connections, the first in room r as u.
  \<open>s_two\<close>: the first connection in rooms q and r as u. \<open>s_code\<close> and \<open>s_empty_code\<close>: room r
  with the code \<open>x\<close>, and with the empty string as its code. \<open>s_dup\<close>: two connections in
  room r that both have the username u, the first after joining room q as u.
  \<open>s_private\<close>: a connection that joined, as u, the room named by its own id.
  \<open>s_keys\<close>: the first connection in the rooms \<open>''undefined''\<close> and \<open>undefined\<close>, which
  share their dictionary entries, the second in the first of them. \<open>s_abort\<close>: a connection
  that joined the room toString, where the join raised after \<open>socket.join\<close>, and then room r.
  \<open>s_guest\<close>: two connections in room r, the second also in the room named by the id of the
  first. \<open>s_echo\<close>: the first connection in room r, after the second joined the room named
  by the id of the first under the same username, which took the first out of that room.
  \<open>s_inherited\<close>: a connection in the room toString, where its join raised after
  \<open>socket.join\<close>. \<open>s_constructor\<close>: a code stored for the room constructor.
\<close>

definition s_a :: server where
  "s_a = after (run init [Connection ''a''])"

definition s_ab :: server where
  "s_ab = after (run init [Connection ''a'', Connection ''b'', Join ''a'' (Str ''r'') (Str ''u'')])"

definition s_two :: server where
  "s_two = after (run init [Connection ''a'', Connection ''b'', Join ''a'' (Str ''q'') (Str ''u''),
                          Join ''a'' (Str ''r'') (Str ''u'')])"

definition s_code :: server where
  "s_code = after (run init [Connection ''a'', Connection ''b'',
      Join ''a'' (Str ''r'') (Str ''u''), CodeChange ''a'' (Str ''r'') (Str ''x'')])"

definition s_empty_code :: server where
  "s_empty_code = after (run init [Connection ''a'', Connection ''b'',
      Join ''a'' (Str ''r'') (Str ''u''), CodeChange ''a'' (Str ''r'') (Str [])])"

definition s_dup :: server where
  "s_dup = after (run init [Connection ''a'', Connection ''b'', Join ''a'' (Str ''r'') (Str ''v''),
                          Join ''b'' (Str ''r'') (Str ''u''), Join ''a'' (Str ''q'') (Str ''u'')])"

definition s_private :: server where
  "s_private = after (run init [Connection ''a'', Join ''a'' (Str ''a'') (Str ''u'')])"

definition s_keys :: server where
  "s_keys = after (run init [Connection ''a'', Connection ''b'',
      Join ''a'' (Str ''undefined'') (Str ''v''), Join ''b'' (Str ''undefined'') (Str ''u''),
      Join ''a'' Undefined (Str ''u'')])"

definition s_abort :: server where
  "s_abort = after (run init [Connection ''a'', Join ''a'' (Str ''toString'') (Str ''u''),
      Join ''a'' (Str ''r'') (Str ''u'')])"

definition s_guest :: server where
  "s_guest = after (run init [Connection ''a'', Connection ''b'',
      Join ''a'' (Str ''r'') (Str ''u''), Join ''b'' (Str ''r'') (Str ''w''),
      Join ''b'' (Str ''a'') (Str ''w'')])"

definition s_echo :: server where
  "s_echo = after (run init [Connection ''a'', Connection ''b'',
      Join ''a'' (Str ''r'') (Str ''u''), Join ''b'' (Str ''a'') (Str ''u'')])"

definition s_inherited :: server where
  "s_inherited = after (run init [Connection ''a'', Join ''a'' (Str ''toString'') (Str ''u'')])"

definition s_constructor :: server where
  "s_constructor = after (run init [Connection ''a'', Connection ''b'',
      CodeChange ''a'' (Str ''constructor'') (Str ''x'')])"

section \<open>Properties\<close>

subsection \<open>Evaluating outcomes and concrete runs\<close>

lemma outcome_simps [simp]:
  "after (returns s out) = s" "emitted (returns s out) = out" "raised (returns s out) = None"
  "after (throws s out) = s" "emitted (throws s out) = out" "raised (throws s out) = Some TypeError"
  by (simp_all add: returns_def throws_def)

lemma disconnecting_loop_Cons:
  "after (disconnecting_loop sid (r # rs) s) =
     (if raised (disconnecting_room s sid r) \<noteq> None then after (disconnecting_room s sid r)
      else after (disconnecting_loop sid rs (after (disconnecting_room s sid r))))"
  "emitted (disconnecting_loop sid (r # rs) s) =
     (if raised (disconnecting_room s sid r) \<noteq> None then emitted (disconnecting_room s sid r)
      else emitted (disconnecting_room s sid r) @
           emitted (disconnecting_loop sid rs (after (disconnecting_room s sid r))))"
  "raised (disconnecting_loop sid (r # rs) s) =
     (if raised (disconnecting_room s sid r) \<noteq> None then raised (disconnecting_room s sid r)
      else raised (disconnecting_loop sid rs (after (disconnecting_room s sid r))))"
  by (simp_all add: Let_def)

lemma disconnecting_loop_Nil:
  "after (disconnecting_loop sid [] s) = s" "emitted (disconnecting_loop sid [] s) = []"
  "raised (disconnecting_loop sid [] s) = None"
  by simp_all

lemma run_Cons:
  "after (run s (ev # evs)) = after (run (after (step s ev)) evs)"
  "emitted (run s (ev # evs)) = emitted (step s ev) @ emitted (run (after (step s ev)) evs)"
  "raised (run s (ev # evs)) =
     (if raised (step s ev) \<noteq> None then raised (step s ev)
      else raised (run (after (step s ev)) evs))"
  by (simp_all add: Let_def)

lemma run_Nil: "after (run s []) = s" "emitted (run s []) = []" "raised (run s []) = None"
  by simp_all

declare disconnecting_loop.simps [simp del] run.simps [simp del]

declare disconnecting_loop_Cons [simp] disconnecting_loop_Nil [simp] run_Cons [simp] run_Nil [simp]

lemmas eval_defs = init_def step_def join_def connection_def socket_join_def socket_leave_def
  io_to_def socket_to_def socket_emit_def user_of_def code_of_def members_of_def messages_of_def
  getAllConnectedClients_def Let_def disconnecting_def disconnect_def disconnecting_room_def
  transport_close_def hasOtherConnections_def code_change_def sync_code_def send_message_def
  fetch_messages_def receivers_def returns_def throws_def store_code_def messages_read_def
  inherited_def inherited_names_def

lemma user_of_simps [simp]:
  "user_of (s\<lparr>userSocketMap := m\<rparr>) c = (case m c of None \<Rightarrow> Undefined | Some u \<Rightarrow> u)"
  by (simp add: user_of_def)

lemma evict_sockets: "sockets (evict sid roomId uname xs s) = sockets s"
  by (induction xs arbitrary: s) (simp_all add: socket_leave_def)

lemma evict_stores:
  "roomCodeMap (evict sid roomId uname xs s) = roomCodeMap s"
  "roomUsers (evict sid roomId uname xs s) = roomUsers s"
  "roomMessages (evict sid roomId uname xs s) = roomMessages s"
  by (induction xs arbitrary: s) (simp_all add: socket_leave_def)

lemma evict_rooms_other:
  "r \<noteq> roomId \<Longrightarrow> rooms (evict sid roomId uname xs s) r = rooms s r"
  by (induction xs arbitrary: s) (simp_all add: socket_leave_def)

lemma evict_rooms_subset:
  "set (rooms (evict sid roomId uname xs s) r) \<subseteq> set (rooms s r)"
proof (induction xs arbitrary: s)
  case Nil
  show ?case by simp
next
  case (Cons x xs)
  show ?case
    using Cons.IH [of "(socket_leave s x roomId)\<lparr>userSocketMap := (userSocketMap s)(x := None)\<rparr>"]
      Cons.IH [of s]
    by (auto simp: socket_leave_def split: if_splits)
qed

lemma evict_map_deletes:
  "userSocketMap (evict sid roomId uname xs s) c = None \<or>
   userSocketMap (evict sid roomId uname xs s) c = userSocketMap s c"
proof (induction xs arbitrary: s)
  case Nil
  show ?case by simp
next
  case (Cons x xs)
  show ?case
    using Cons.IH [of "(socket_leave s x roomId)\<lparr>userSocketMap := (userSocketMap s)(x := None)\<rparr>"]
      Cons.IH [of s]
    by (auto simp: socket_leave_def split: if_splits)
qed

lemma evict_stays_out:
  "e \<notin> set (rooms s roomId) \<Longrightarrow> userSocketMap s e = None \<Longrightarrow>
   e \<notin> set (rooms (evict sid roomId uname xs s) roomId) \<and>
   userSocketMap (evict sid roomId uname xs s) e = None"
  using evict_rooms_subset [of sid roomId uname xs s roomId]
    evict_map_deletes [of sid roomId uname xs s e]
  by auto

lemma evict_evicts:
  "e \<in> set xs \<Longrightarrow> user_of s e = uname \<Longrightarrow> e \<in> sockets s \<Longrightarrow> e \<noteq> sid \<Longrightarrow>
   e \<notin> set (rooms (evict sid roomId uname xs s) roomId) \<and>
   userSocketMap (evict sid roomId uname xs s) e = None"
proof (induction xs arbitrary: s)
  case Nil
  then show ?case by simp
next
  case (Cons x xs)
  show ?case
  proof (cases "x = e")
    case True
    let ?s1 = "(socket_leave s e roomId)\<lparr>userSocketMap := (userSocketMap s)(e := None)\<rparr>"
    have "e \<notin> set (rooms ?s1 roomId)" "userSocketMap ?s1 e = None"
      by (simp_all add: socket_leave_def)
    then show ?thesis
      using evict_stays_out [of e ?s1 roomId sid uname xs] Cons.prems True by simp
  next
    case False
    with Cons.prems have e: "e \<in> set xs" by simp
    let ?s1 = "(socket_leave s x roomId)\<lparr>userSocketMap := (userSocketMap s)(x := None)\<rparr>"
    have "user_of ?s1 e = uname" "e \<in> sockets ?s1"
      using Cons.prems False by (simp_all add: socket_leave_def user_of_def)
    then show ?thesis
      using Cons.IH [of ?s1] Cons.IH [of s] e Cons.prems by simp
  qed
qed

lemma uniqueUsers_set_subset: "set (uniqueUsers_set kvs k v) \<subseteq> insert (k, v) (set kvs)"
  by (induction kvs) (auto split: if_splits)

lemma collect_clients_sound:
  "kv \<in> set (collect_clients s xs acc) \<Longrightarrow>
   kv \<in> set acc \<or> (c_socketId (snd kv) \<in> set xs \<and> truthy (user_of s (c_socketId (snd kv)))
      \<and> c_username (snd kv) = user_of s (c_socketId (snd kv)))"
proof (induction xs arbitrary: acc)
  case Nil
  then show ?case by simp
next
  case (Cons x xs)
  show ?case
  proof (cases "truthy (user_of s x)")
    case True
    let ?acc = "uniqueUsers_set acc (user_of s x) \<lparr>c_socketId = x, c_username = user_of s x\<rparr>"
    from Cons.prems True have "kv \<in> set (collect_clients s xs ?acc)" by simp
    from Cons.IH [OF this] show ?thesis
      using uniqueUsers_set_subset [of acc "user_of s x" "\<lparr>c_socketId = x, c_username = user_of s x\<rparr>"] True
      by auto
  next
    case False
    with Cons.prems have "kv \<in> set (collect_clients s xs acc)" by simp
    from Cons.IH [OF this] show ?thesis by auto
  qed
qed

lemma getAllConnectedClients_sound:
  "c \<in> set (getAllConnectedClients s roomId) \<Longrightarrow>
   c_socketId c \<in> set (rooms s roomId) \<and> truthy (user_of s (c_socketId c))
   \<and> c_username c = user_of s (c_socketId c)"
  using collect_clients_sound [of _ s "rooms s roomId" "[]"]
  by (auto simp: getAllConnectedClients_def)

lemma evict_socket_rooms_subset:
  "set (socket_rooms (evict sid roomId uname xs s) c) \<subseteq> set (socket_rooms s c)"
proof (induction xs arbitrary: s)
  case Nil
  show ?case by simp
next
  case (Cons x xs)
  show ?case
    using Cons.IH [of "(socket_leave s x roomId)\<lparr>userSocketMap := (userSocketMap s)(x := None)\<rparr>"]
      Cons.IH [of s]
    by (auto simp: socket_leave_def split: if_splits)
qed

lemma evict_leaves:
  "e \<in> set xs \<Longrightarrow> user_of s e = uname \<Longrightarrow> e \<in> sockets s \<Longrightarrow> e \<noteq> sid \<Longrightarrow>
   roomId \<notin> set (socket_rooms (evict sid roomId uname xs s) e)"
proof (induction xs arbitrary: s)
  case Nil
  then show ?case by simp
next
  case (Cons x xs)
  show ?case
  proof (cases "x = e")
    case True
    let ?s1 = "(socket_leave s e roomId)\<lparr>userSocketMap := (userSocketMap s)(e := None)\<rparr>"
    have "roomId \<notin> set (socket_rooms ?s1 e)"
      by (simp add: socket_leave_def)
    then show ?thesis
      using evict_socket_rooms_subset [of sid roomId uname xs ?s1 e] Cons.prems True by auto
  next
    case False
    with Cons.prems have e: "e \<in> set xs" by simp
    let ?s1 = "(socket_leave s x roomId)\<lparr>userSocketMap := (userSocketMap s)(x := None)\<rparr>"
    have "user_of ?s1 e = uname" "e \<in> sockets ?s1"
      using Cons.prems False by (simp_all add: socket_leave_def user_of_def)
    then show ?thesis
      using Cons.IH [of ?s1] Cons.IH [of s] e Cons.prems by simp
  qed
qed

subsection \<open>Joining\<close>

lemma join_raised:
  "raised (join s sid roomId uname) =
     (if roomUsers s (key_of roomId) = None \<and> inherited (key_of roomId) then Some TypeError else None)"
  by (simp add: join_def Let_def socket_join_def evict_stores)

lemma join_rooms:
  "rooms (after (join s sid roomId uname)) =
     (rooms (evict sid roomId uname (rooms s roomId) s))
       (roomId := (if sid \<in> set (rooms (evict sid roomId uname (rooms s roomId) s) roomId)
                   then rooms (evict sid roomId uname (rooms s roomId) s) roomId
                   else rooms (evict sid roomId uname (rooms s roomId) s) roomId @ [sid]))"
  by (simp add: join_def Let_def socket_join_def)

lemma join_socket_rooms:
  "socket_rooms (after (join s sid roomId uname)) =
     (socket_rooms (evict sid roomId uname (rooms s roomId) s))
       (sid := (if roomId \<in> set (socket_rooms (evict sid roomId uname (rooms s roomId) s) sid)
                then socket_rooms (evict sid roomId uname (rooms s roomId) s) sid
                else socket_rooms (evict sid roomId uname (rooms s roomId) s) sid @ [roomId]))"
  by (simp add: join_def Let_def socket_join_def)

lemma join_userSocketMap:
  "userSocketMap (after (join s sid roomId uname)) =
     (userSocketMap (evict sid roomId uname (rooms s roomId) s))(sid \<mapsto> uname)"
  by (simp add: join_def Let_def socket_join_def)

lemma join_sockets: "sockets (after (join s sid roomId uname)) = sockets s"
  by (simp add: join_def Let_def socket_join_def evict_sockets)

lemma join_roomCodeMap: "roomCodeMap (after (join s sid roomId uname)) = roomCodeMap s"
  by (simp add: join_def Let_def socket_join_def evict_stores)

lemma join_members:
  "raised (join s sid roomId uname) = None \<Longrightarrow>
   members_of (after (join s sid roomId uname)) roomId = insert uname (members_of s roomId)"
proof -
  assume "raised (join s sid roomId uname) = None"
  then have "\<not> (roomUsers s (key_of roomId) = None \<and> inherited (key_of roomId))"
    by (simp add: join_raised split: if_splits)
  then show ?thesis
    by (auto simp: join_def Let_def socket_join_def members_of_def evict_stores)
qed

lemma join_rooms_other:
  "r \<noteq> roomId \<Longrightarrow> rooms (after (join s sid roomId uname)) r = rooms s r"
  by (simp add: join_rooms evict_rooms_other)

lemma join_rooms_set:
  "set (rooms (after (join s sid roomId uname)) roomId) =
     insert sid (set (rooms (evict sid roomId uname (rooms s roomId) s) roomId))"
  by (auto simp: join_rooms)

lemma join_socket_rooms_set:
  "set (socket_rooms (after (join s sid roomId uname)) c) =
     (if c = sid then insert roomId (set (socket_rooms (evict sid roomId uname (rooms s roomId) s) sid))
      else set (socket_rooms (evict sid roomId uname (rooms s roomId) s) c))"
  by (auto simp: join_socket_rooms)

lemma getAllConnectedClients_cong:
  "rooms s roomId = rooms t roomId \<Longrightarrow> userSocketMap s = userSocketMap t \<Longrightarrow>
   getAllConnectedClients s roomId = getAllConnectedClients t roomId"
proof -
  assume r: "rooms s roomId = rooms t roomId" and u: "userSocketMap s = userSocketMap t"
  have "collect_clients s xs acc = collect_clients t xs acc" for xs acc
    by (induction xs arbitrary: acc) (simp_all add: user_of_def u)
  then show ?thesis by (simp add: getAllConnectedClients_def r)
qed

lemma code_of_cong: "roomCodeMap s = roomCodeMap t \<Longrightarrow> code_of s roomId = code_of t roomId"
  by (simp add: code_of_def)

lemma join_emitted:
  "emitted (join s sid roomId uname) =
     (if raised (join s sid roomId uname) \<noteq> None then []
      else io_to (after (join s sid roomId uname)) roomId
             (JOINED (getAllConnectedClients (after (join s sid roomId uname)) roomId) uname sid)
           # (if truthy_lookup (code_of s roomId)
              then [socket_emit sid (CODE_CHANGE (code_of s roomId))] else []))"
proof (cases "roomUsers s (key_of roomId) = None \<and> inherited (key_of roomId)")
  case True
  then show ?thesis
    by (simp add: join_raised) (simp add: join_def Let_def socket_join_def evict_stores)
next
  case False
  let ?s1 = "evict sid roomId uname (rooms s roomId) s"
  let ?s3 = "socket_join (?s1\<lparr>userSocketMap := (userSocketMap ?s1)(sid \<mapsto> uname)\<rparr>) sid roomId"
  let ?s4 = "?s3\<lparr>roomUsers := (roomUsers ?s3)(key_of roomId \<mapsto> insert uname (members_of ?s3 roomId))\<rparr>"
  have nr: "\<not> (roomUsers ?s3 (key_of roomId) = None \<and> inherited (key_of roomId))"
    using False by (simp add: socket_join_def evict_stores)
  have c: "code_of ?s4 roomId = code_of s roomId"
    by (rule code_of_cong) (simp add: socket_join_def evict_stores)
  have r: "rooms (after (join s sid roomId uname)) = rooms ?s4"
    and u: "userSocketMap (after (join s sid roomId uname)) = userSocketMap ?s4"
    using nr by (simp_all add: join_def Let_def)
  have g: "getAllConnectedClients (after (join s sid roomId uname)) roomId =
      getAllConnectedClients ?s4 roomId"
    by (rule getAllConnectedClients_cong) (simp_all add: r u)
  have i: "io_to (after (join s sid roomId uname)) roomId p = io_to ?s4 roomId p" for p
    by (simp add: io_to_def r)
  have "emitted (join s sid roomId uname) =
     io_to ?s4 roomId (JOINED (getAllConnectedClients ?s4 roomId) uname sid)
     # (if truthy_lookup (code_of ?s4 roomId) then [socket_emit sid (CODE_CHANGE (code_of ?s4 roomId))]
        else [])"
    using nr by (simp add: join_def Let_def)
  then show ?thesis using False by (simp only: c g i join_raised) simp
qed

subsection \<open>Disconnecting\<close>

lemma disconnecting_room_frame:
  "userSocketMap (after (disconnecting_room s sid r)) = userSocketMap s"
  "rooms (after (disconnecting_room s sid r)) = rooms s"
  "socket_rooms (after (disconnecting_room s sid r)) = socket_rooms s"
  "sockets (after (disconnecting_room s sid r)) = sockets s"
  by (simp_all add: disconnecting_room_def split: option.splits)

lemma disconnecting_room_test:
  "user_of (after (disconnecting_room s sid r)) c = user_of s c"
  "hasOtherConnections (after (disconnecting_room s sid r)) sid r' = hasOtherConnections s sid r'"
  "socket_to (after (disconnecting_room s sid r)) sid r' p = socket_to s sid r' p"
  by (simp_all add: user_of_def hasOtherConnections_def socket_to_def disconnecting_room_frame)

lemma disconnecting_room_emitted:
  "emitted (disconnecting_room s sid r) =
     (if r \<noteq> Str sid \<and> \<not> hasOtherConnections s sid r
      then [socket_to s sid r (DISCONNECTED sid (user_of s sid))] else [])"
  by (simp add: disconnecting_room_def split: option.splits)

lemma disconnecting_room_raised:
  "raised (disconnecting_room s sid r) =
     (if r \<noteq> Str sid \<and> \<not> hasOtherConnections s sid r \<and> roomUsers s (key_of r) = None
         \<and> inherited (key_of r)
      then Some TypeError else None)"
  by (simp add: disconnecting_room_def split: option.splits)

lemma disconnecting_room_other_key:
  "k \<noteq> key_of r \<Longrightarrow> roomUsers (after (disconnecting_room s sid r)) k = roomUsers s k"
  "k \<noteq> key_of r \<Longrightarrow> roomCodeMap (after (disconnecting_room s sid r)) k = roomCodeMap s k"
  "k \<noteq> key_of r \<Longrightarrow> roomMessages (after (disconnecting_room s sid r)) k = roomMessages s k"
  by (simp_all add: disconnecting_room_def split: option.splits)

lemma disconnecting_room_skip:
  "r = Str sid \<or> hasOtherConnections s sid r \<Longrightarrow> disconnecting_room s sid r = returns s []"
  by (auto simp: disconnecting_room_def)

lemma disconnecting_room_members:
  "members_of (after (disconnecting_room s sid r)) r' \<subseteq> members_of s r'"
  by (auto simp: disconnecting_room_def members_of_def split: option.splits if_splits)

lemma disconnecting_room_removes:
  "r \<noteq> Str sid \<Longrightarrow> \<not> hasOtherConnections s sid r \<Longrightarrow>
   user_of s sid \<notin> members_of (after (disconnecting_room s sid r)) r"
  by (auto simp: disconnecting_room_def members_of_def split: option.splits if_splits)

lemma disconnecting_loop_frame:
  "userSocketMap (after (disconnecting_loop sid rs s)) = userSocketMap s"
  "rooms (after (disconnecting_loop sid rs s)) = rooms s"
  "socket_rooms (after (disconnecting_loop sid rs s)) = socket_rooms s"
  "sockets (after (disconnecting_loop sid rs s)) = sockets s"
  by (induction rs arbitrary: s)
    (simp_all add: disconnecting_room_frame)

lemma disconnecting_loop_members:
  "members_of (after (disconnecting_loop sid rs s)) r' \<subseteq> members_of s r'"
proof (induction rs arbitrary: s)
  case Nil
  show ?case by simp
next
  case (Cons r rs)
  show ?case
    using Cons.IH [of "after (disconnecting_room s sid r)"] disconnecting_room_members [of s sid r r']
    by (auto simp: disconnecting_loop_Cons)
qed

lemma disconnecting_loop_removes:
  "roomId \<in> set rs \<Longrightarrow> roomId \<noteq> Str sid \<Longrightarrow> \<not> hasOtherConnections s sid roomId \<Longrightarrow>
   raised (disconnecting_loop sid rs s) = None \<Longrightarrow>
   user_of s sid \<notin> members_of (after (disconnecting_loop sid rs s)) roomId"
proof (induction rs arbitrary: s)
  case Nil
  then show ?case by simp
next
  case (Cons r rs)
  let ?s1 = "after (disconnecting_room s sid r)"
  from Cons.prems(4) have ok: "raised (disconnecting_room s sid r) = None"
    and rest: "raised (disconnecting_loop sid rs ?s1) = None"
    by (simp_all add: split: if_splits)
  show ?case
  proof (cases "r = roomId")
    case True
    have "user_of s sid \<notin> members_of ?s1 roomId"
      using Cons.prems True by (simp add: disconnecting_room_removes)
    then show ?thesis
      using disconnecting_loop_members [of sid rs ?s1 roomId] ok
      by (auto simp: disconnecting_loop_Cons)
  next
    case False
    with Cons.prems have "roomId \<in> set rs" by simp
    from Cons.IH [OF this Cons.prems(2) _ rest] Cons.prems(3) ok
    show ?thesis
      by (simp add: disconnecting_room_test)
  qed
qed

lemma target_socket_to: "target (socket_to s sid r p) = ToRoomExcept r sid"
  by (simp add: socket_to_def)

lemma disconnecting_loop_out:
  "distinct rs \<Longrightarrow> raised (disconnecting_loop sid rs s) = None \<Longrightarrow>
   filter (\<lambda>e. target e = ToRoomExcept roomId sid) (emitted (disconnecting_loop sid rs s)) =
     (if roomId \<in> set rs \<and> roomId \<noteq> Str sid \<and> \<not> hasOtherConnections s sid roomId
      then [socket_to s sid roomId (DISCONNECTED sid (user_of s sid))] else [])"
proof (induction rs arbitrary: s)
  case Nil
  show ?case by simp
next
  case (Cons r rs)
  let ?s1 = "after (disconnecting_room s sid r)"
  from Cons.prems have d: "distinct rs" and n: "r \<notin> set rs" by simp_all
  from Cons.prems(2) have ok: "raised (disconnecting_room s sid r) = None"
    and rest: "raised (disconnecting_loop sid rs ?s1) = None"
    by (simp_all add: split: if_splits)
  show ?case
    using Cons.IH [OF d rest] n ok
    by (auto simp: disconnecting_room_test disconnecting_room_emitted
        target_socket_to)
qed

lemma disconnecting_loop_untouched:
  "\<forall>r \<in> set rs. key_of r = key_of roomId \<longrightarrow> r = Str sid \<or> hasOtherConnections s sid r \<Longrightarrow>
   roomUsers (after (disconnecting_loop sid rs s)) (key_of roomId) = roomUsers s (key_of roomId) \<and>
   roomCodeMap (after (disconnecting_loop sid rs s)) (key_of roomId) = roomCodeMap s (key_of roomId) \<and>
   roomMessages (after (disconnecting_loop sid rs s)) (key_of roomId) = roomMessages s (key_of roomId)"
proof (induction rs arbitrary: s)
  case Nil
  show ?case by simp
next
  case (Cons r rs)
  let ?s1 = "after (disconnecting_room s sid r)"
  have k: "\<forall>r \<in> set rs. key_of r = key_of roomId \<longrightarrow> r = Str sid \<or> hasOtherConnections ?s1 sid r"
    using Cons.prems by (simp add: disconnecting_room_test)
  have one: "roomUsers ?s1 (key_of roomId) = roomUsers s (key_of roomId) \<and>
     roomCodeMap ?s1 (key_of roomId) = roomCodeMap s (key_of roomId) \<and>
     roomMessages ?s1 (key_of roomId) = roomMessages s (key_of roomId)"
  proof (cases "key_of r = key_of roomId")
    case True
    with Cons.prems have "r = Str sid \<or> hasOtherConnections s sid r" by simp
    then show ?thesis by (simp add: disconnecting_room_skip)
  next
    case False
    then have "key_of roomId \<noteq> key_of r" by simp
    then show ?thesis by (simp add: disconnecting_room_other_key)
  qed
  show ?case
    using Cons.IH [OF k] one by simp
qed

lemma disconnecting_loop_payload:
  "x \<in> set (emitted (disconnecting_loop sid rs s)) \<Longrightarrow> payload x = DISCONNECTED sid (user_of s sid)"
proof (induction rs arbitrary: s)
  case Nil
  then show ?case by simp
next
  case (Cons r rs)
  then show ?case
    using Cons.IH [of "after (disconnecting_room s sid r)"]
    by (auto simp: disconnecting_room_emitted disconnecting_room_test
        socket_to_def split: if_splits)
qed

lemma disconnecting_state:
  "roomUsers (after (disconnecting s sid)) = roomUsers (after (disconnecting_loop sid (socket_rooms s sid) s))"
  "roomCodeMap (after (disconnecting s sid)) = roomCodeMap (after (disconnecting_loop sid (socket_rooms s sid) s))"
  "roomMessages (after (disconnecting s sid)) = roomMessages (after (disconnecting_loop sid (socket_rooms s sid) s))"
  "emitted (disconnecting s sid) = emitted (disconnecting_loop sid (socket_rooms s sid) s)"
  "raised (disconnecting s sid) = raised (disconnecting_loop sid (socket_rooms s sid) s)"
  by (simp_all add: disconnecting_def Let_def)

lemma disconnecting_frame:
  "rooms (after (disconnecting s sid)) = rooms s"
  "socket_rooms (after (disconnecting s sid)) = socket_rooms s"
  "sockets (after (disconnecting s sid)) = sockets s"
  "userSocketMap (after (disconnecting s sid)) =
     (if raised (disconnecting s sid) \<noteq> None then userSocketMap s else (userSocketMap s)(sid := None))"
  by (auto simp: disconnecting_def Let_def disconnecting_loop_frame)

lemma members_of_disconnecting:
  "members_of (after (disconnecting s sid)) r =
   members_of (after (disconnecting_loop sid (socket_rooms s sid) s)) r"
  by (simp add: members_of_def disconnecting_state)

subsection \<open>Steps and runs\<close>

lemma disconnect_fields:
  "roomUsers (after (disconnect s c)) = roomUsers (after (disconnecting s c))"
  "roomCodeMap (after (disconnect s c)) = roomCodeMap (after (disconnecting s c))"
  "roomMessages (after (disconnect s c)) = roomMessages (after (disconnecting s c))"
  "emitted (disconnect s c) = emitted (disconnecting s c)"
  "raised (disconnect s c) = raised (disconnecting s c)"
  by (simp_all add: disconnect_def Let_def transport_close_def)

lemma disconnect_done:
  assumes "raised (disconnecting s c) = None"
  shows "rooms (after (disconnect s c)) r = removeAll c (rooms s r)"
    and "socket_rooms (after (disconnect s c)) = (socket_rooms s)(c := [])"
    and "sockets (after (disconnect s c)) = sockets s - {c}"
    and "userSocketMap (after (disconnect s c)) = (userSocketMap s)(c := None)"
  using assms by (simp_all add: disconnect_def Let_def transport_close_def disconnecting_frame)

lemma disconnect_userSocketMap:
  "userSocketMap (after (disconnect s c)) e = None \<or>
   userSocketMap (after (disconnect s c)) e = userSocketMap s e"
  by (simp add: disconnect_def Let_def transport_close_def disconnecting_frame)

lemma step_keeps_unregistered:
  assumes "userSocketMap s e = None" and "\<not> joins e ev"
  shows "userSocketMap (after (step s ev)) e = None"
proof (cases ev)
  case (Connection sid)
  then show ?thesis using assms by (simp add: step_def connection_def socket_join_def)
next
  case (Join sid roomId uname)
  with assms(2) have "sid \<noteq> e" by simp
  then show ?thesis
    using assms(1) evict_map_deletes [of sid roomId uname "rooms s roomId" s e]
    by (auto simp: Join step_def join_userSocketMap)
next
  case (CodeChange sid roomId code)
  then show ?thesis using assms by (simp add: step_def code_change_def store_code_def)
next
  case (SyncCode sid socketId roomId code)
  then show ?thesis using assms by (simp add: step_def sync_code_def store_code_def Let_def)
next
  case (SendMessage sid roomId msg uname now stamp)
  then show ?thesis using assms by (simp add: step_def send_message_def Let_def)
next
  case (FetchMessages sid roomId)
  then show ?thesis using assms by (simp add: step_def fetch_messages_def)
next
  case (NoPayload sid h)
  then show ?thesis using assms by (simp add: step_def)
next
  case (Disconnect sid)
  then show ?thesis
    using assms disconnect_userSocketMap [of s sid e] by (auto simp: step_def)
qed

lemma run_keeps_unregistered:
  "userSocketMap s e = None \<Longrightarrow> \<forall>ev \<in> set evs. \<not> joins e ev \<Longrightarrow>
   userSocketMap (after (run s evs)) e = None"
  by (induction evs arbitrary: s)
    (simp_all add: step_keeps_unregistered)

lemma unregistered_not_listed:
  assumes "userSocketMap s e = None"
  shows "e \<notin> c_socketId ` set (getAllConnectedClients s r)"
proof
  assume "e \<in> c_socketId ` set (getAllConnectedClients s r)"
  then obtain c where "c \<in> set (getAllConnectedClients s r)" and "c_socketId c = e"
    by auto
  then have "truthy (user_of s e)"
    using getAllConnectedClients_sound [of c s r] by simp
  then show False using assms by (simp add: user_of_def)
qed

lemma step_joined_lists:
  assumes "userSocketMap s e = None" and "\<not> joins e ev"
    and "x \<in> set (emitted (step s ev))" and "payload x = JOINED clients u c"
  shows "e \<notin> c_socketId ` set clients"
proof (cases ev)
  case (Connection sid)
  then show ?thesis using assms(3) by (simp add: step_def split: if_splits)
next
  case (Join sid roomId uname)
  have none: "userSocketMap (after (join s sid roomId uname)) e = None"
    using step_keeps_unregistered [OF assms(1,2)] assms(3) Join
    by (simp add: step_def split: if_splits)
  from assms(3) Join have "x \<in> set (emitted (join s sid roomId uname))"
    by (simp add: step_def split: if_splits)
  with assms(4) have "clients = getAllConnectedClients (after (join s sid roomId uname)) roomId"
    by (auto simp: join_emitted io_to_def socket_emit_def split: if_splits)
  then show ?thesis using unregistered_not_listed [OF none] by simp
next
  case (CodeChange sid roomId code)
  then show ?thesis using assms(3,4)
    by (auto simp: step_def code_change_def socket_to_def split: if_splits)
next
  case (SyncCode sid socketId roomId code)
  then show ?thesis using assms(3,4)
    by (auto simp: step_def sync_code_def io_to_def Let_def split: if_splits)
next
  case (SendMessage sid roomId msg uname now stamp)
  then show ?thesis using assms(3,4)
    by (auto simp: step_def send_message_def io_to_def Let_def split: if_splits)
next
  case (FetchMessages sid roomId)
  then show ?thesis using assms(3,4)
    by (auto simp: step_def fetch_messages_def socket_emit_def split: if_splits)
next
  case (NoPayload sid h)
  then show ?thesis using assms(3) by (simp add: step_def split: if_splits)
next
  case (Disconnect sid)
  with assms(3) have "x \<in> set (emitted (disconnecting_loop sid (socket_rooms s sid) s))"
    by (simp add: step_def disconnect_fields disconnecting_state split: if_splits)
  from disconnecting_loop_payload [OF this] assms(4) show ?thesis by simp
qed

lemma run_joined_lists:
  "userSocketMap s e = None \<Longrightarrow> \<forall>ev \<in> set evs. \<not> joins e ev \<Longrightarrow>
   x \<in> set (emitted (run s evs)) \<Longrightarrow> payload x = JOINED clients u c \<Longrightarrow>
   e \<notin> c_socketId ` set clients"
proof (induction evs arbitrary: s)
  case Nil
  then show ?case by simp
next
  case (Cons ev evs)
  from Cons.prems(2) have ev: "\<not> joins e ev" and evs: "\<forall>ev \<in> set evs. \<not> joins e ev"
    by simp_all
  from Cons.prems(3)
  consider "x \<in> set (emitted (step s ev))" | "x \<in> set (emitted (run (after (step s ev)) evs))"
    by auto
  then show ?case
  proof cases
    case 1
    from step_joined_lists [OF Cons.prems(1) ev 1 Cons.prems(4)] show ?thesis .
  next
    case 2
    from Cons.IH [OF step_keeps_unregistered [OF Cons.prems(1) ev] evs 2 Cons.prems(4)]
    show ?thesis .
  qed
qed

subsection \<open>Eviction\<close>

text \<open>
  Connection a is in room r as u when connection b joins r as u. The join handler emits one
  event, the joined broadcast, and it goes to the room after a has left it: a is sent
  nothing. When a then joins the room again, under another name, it is back in the member
  list.
\<close>

theorem forced_leave_notice_counterexample:
  "''a'' \<in> set (rooms s_ab (Str ''r'')) \<and> user_of s_ab ''a'' = Str ''u''
   \<and> join s_ab ''b'' (Str ''r'') (Str ''u'') =
       returns (after (join s_ab ''b'' (Str ''r'') (Str ''u'')))
         [\<lparr>target = ToRoom (Str ''r''), recipients = [''b''],
           payload = JOINED [\<lparr>c_socketId = ''b'', c_username = Str ''u''\<rparr>] (Str ''u'') ''b''\<rparr>]
   \<and> map payload (emitted (step (after (join s_ab ''b'' (Str ''r'') (Str ''u'')))
          (Join ''a'' (Str ''r'') (Str ''w'')))) =
       [JOINED [\<lparr>c_socketId = ''b'', c_username = Str ''u''\<rparr>,
                \<lparr>c_socketId = ''a'', c_username = Str ''w''\<rparr>] (Str ''w'') ''a'']"
  by (simp add: s_ab_def eval_defs)

text \<open>
  C3, as amended. When a connection joins a room in which another, still connected,
  connection is registered under the same username, that connection is taken out of the room
  and loses its \<open>userSocketMap\<close> entry. It receives none of the events the join handler
  emits, so no notice of its eviction, and it is in no member list of a joined event,
  neither the one of this join nor any later one for any room, until it sends a join
  itself.
\<close>

theorem join_evicts:
  assumes "e \<in> set (rooms s roomId)" and "user_of s e = uname" and "e \<in> sockets s"
    and "e \<noteq> sid" and "\<forall>ev \<in> set evs. \<not> joins e ev"
  shows "e \<notin> set (rooms (after (join s sid roomId uname)) roomId)
    \<and> userSocketMap (after (join s sid roomId uname)) e = None
    \<and> e \<notin> set (receivers (emitted (join s sid roomId uname)))
    \<and> e \<notin> c_socketId ` set (getAllConnectedClients (after (join s sid roomId uname)) roomId)
    \<and> (\<forall>x \<in> set (emitted (join s sid roomId uname)
                     @ emitted (run (after (join s sid roomId uname)) evs)).
          \<forall>clients u c. payload x = JOINED clients u c \<longrightarrow> e \<notin> c_socketId ` set clients)"
proof -
  let ?s' = "after (join s sid roomId uname)"
  from evict_evicts [OF assms(1-4)]
  have out: "e \<notin> set (rooms (evict sid roomId uname (rooms s roomId) s) roomId)"
    and none: "userSocketMap (evict sid roomId uname (rooms s roomId) s) e = None"
    by simp_all
  have r: "e \<notin> set (rooms ?s' roomId)"
    using out assms(4) by (simp add: join_rooms)
  have m: "userSocketMap ?s' e = None"
    using none assms(4) by (simp add: join_userSocketMap)
  have rc: "e \<notin> set (receivers (emitted (join s sid roomId uname)))"
    using r assms(4) by (simp add: join_emitted receivers_def io_to_def socket_emit_def)
  have cl: "e \<notin> c_socketId ` set (getAllConnectedClients ?s' r')" for r'
    using m by (rule unregistered_not_listed)
  have now: "e \<notin> c_socketId ` set clients"
    if "x \<in> set (emitted (join s sid roomId uname))" "payload x = JOINED clients u c"
    for x clients u c
  proof -
    from that have "clients = getAllConnectedClients ?s' roomId"
      by (auto simp: join_emitted io_to_def socket_emit_def split: if_splits)
    then show ?thesis using cl by simp
  qed
  have later: "e \<notin> c_socketId ` set clients"
    if "x \<in> set (emitted (run ?s' evs))" "payload x = JOINED clients u c" for x clients u c
    using run_joined_lists [OF m assms(5) that] .
  have lists: "\<forall>x \<in> set (emitted (join s sid roomId uname) @ emitted (run ?s' evs)).
      \<forall>clients u c. payload x = JOINED clients u c \<longrightarrow> e \<notin> c_socketId ` set clients"
  proof (intro ballI allI impI)
    fix x clients u c
    assume x: "x \<in> set (emitted (join s sid roomId uname) @ emitted (run ?s' evs))"
      and p: "payload x = JOINED clients u c"
    from x consider "x \<in> set (emitted (join s sid roomId uname))"
      | "x \<in> set (emitted (run ?s' evs))" by auto
    then show "e \<notin> c_socketId ` set clients"
    proof cases
      case 1
      from now [OF 1 p] show ?thesis .
    next
      case 2
      from later [OF 2 p] show ?thesis .
    qed
  qed
  from r m rc cl [of roomId] lists show ?thesis by blast
qed

text \<open>
  The eviction of a by b in room r, followed by the join of a third connection.
\<close>

theorem join_evicts_witness:
  "''a'' \<in> set (rooms s_ab (Str ''r'')) \<and> user_of s_ab ''a'' = Str ''u''
    \<and> ''a'' \<in> sockets s_ab \<and> ''a'' \<noteq> ''b''
    \<and> list_all (\<lambda>ev. \<not> joins ''a'' ev) [Connection ''c'', Join ''c'' (Str ''r'') (Str ''w'')]
    \<and> ''a'' \<notin> set (rooms (after (join s_ab ''b'' (Str ''r'') (Str ''u''))) (Str ''r''))
    \<and> userSocketMap (after (join s_ab ''b'' (Str ''r'') (Str ''u''))) ''a'' = None
    \<and> ''a'' \<notin> set (receivers (emitted (join s_ab ''b'' (Str ''r'') (Str ''u''))))
    \<and> map payload (emitted (run (after (join s_ab ''b'' (Str ''r'') (Str ''u'')))
          [Connection ''c'', Join ''c'' (Str ''r'') (Str ''w'')])) =
        [JOINED [\<lparr>c_socketId = ''b'', c_username = Str ''u''\<rparr>,
                 \<lparr>c_socketId = ''c'', c_username = Str ''w''\<rparr>] (Str ''w'') ''c'']"
proof -
  have h: "''a'' \<in> set (rooms s_ab (Str ''r''))" "user_of s_ab ''a'' = Str ''u''"
    "''a'' \<in> sockets s_ab" "''a'' \<noteq> ''b''"
    "\<forall>ev \<in> set [Connection ''c'', Join ''c'' (Str ''r'') (Str ''w'')]. \<not> joins ''a'' ev"
    by (simp_all add: s_ab_def eval_defs)
  have l: "map payload (emitted (run (after (join s_ab ''b'' (Str ''r'') (Str ''u'')))
          [Connection ''c'', Join ''c'' (Str ''r'') (Str ''w'')])) =
        [JOINED [\<lparr>c_socketId = ''b'', c_username = Str ''u''\<rparr>,
                 \<lparr>c_socketId = ''c'', c_username = Str ''w''\<rparr>] (Str ''w'') ''c'']"
    by (simp add: s_ab_def eval_defs)
  from join_evicts [OF h] h(1-4) l show ?thesis by simp
qed

subsection \<open>Eviction reaches every room\<close>

text \<open>
  C10. When a join evicts a connection registered under the same username in the room, the
  connection's \<open>userSocketMap\<close> entry is deleted, whatever other rooms the connection is in,
  and it stays in those rooms. From then on, until it sends a join itself, it has no
  username: it is in no member list computed for any room, and the disconnecting handler
  run for it emits its events with the username \<open>undefined\<close>.
\<close>

theorem eviction_is_global:
  assumes "e \<in> set (rooms s roomId)" and "user_of s e = uname" and "e \<in> sockets s"
    and "e \<noteq> sid" and "\<forall>ev \<in> set evs. \<not> joins e ev"
  shows "userSocketMap (after (join s sid roomId uname)) e = None
    \<and> (\<forall>r. r \<noteq> roomId \<longrightarrow> rooms (after (join s sid roomId uname)) r = rooms s r)
    \<and> user_of (after (run (after (join s sid roomId uname)) evs)) e = Undefined
    \<and> (\<forall>r. e \<notin> c_socketId ` set (getAllConnectedClients (after (run (after (join s sid roomId uname)) evs)) r))
    \<and> (\<forall>x \<in> set (emitted (disconnecting (after (run (after (join s sid roomId uname)) evs)) e)).
          payload x = DISCONNECTED e Undefined)"
proof -
  let ?s' = "after (join s sid roomId uname)"
  let ?t = "after (run ?s' evs)"
  have none: "userSocketMap ?s' e = None"
    using evict_evicts [OF assms(1-4), of roomId] assms(4) by (simp add: join_userSocketMap)
  then have later: "userSocketMap ?t e = None"
    using assms(5) by (rule run_keeps_unregistered)
  then have u: "user_of ?t e = Undefined" by (simp add: user_of_def)
  have clients: "e \<notin> c_socketId ` set (getAllConnectedClients ?t r)" for r
    using later by (rule unregistered_not_listed)
  have pay: "payload x = DISCONNECTED e Undefined" if "x \<in> set (emitted (disconnecting ?t e))" for x
    using that disconnecting_loop_payload [of x e "socket_rooms ?t e" ?t] u
    by (simp add: disconnecting_state)
  show ?thesis
    using none u clients pay by (simp add: join_rooms_other)
qed

text \<open>
  Connection a is in rooms q and r as u; b joins r as u. Connection a stays in q, where it
  is no longer listed, and its disconnect is announced to q without a username.
\<close>

theorem eviction_is_global_witness:
  "''a'' \<in> set (rooms s_two (Str ''r'')) \<and> user_of s_two ''a'' = Str ''u'' \<and> ''a'' \<in> sockets s_two
   \<and> ''a'' \<noteq> ''b'' \<and> list_all (\<lambda>ev. \<not> joins ''a'' ev) [FetchMessages ''b'' (Str ''r'')]
   \<and> ''a'' \<in> set (rooms (after (join s_two ''b'' (Str ''r'') (Str ''u''))) (Str ''q''))
   \<and> userSocketMap (after (join s_two ''b'' (Str ''r'') (Str ''u''))) ''a'' = None
   \<and> ''a'' \<notin> c_socketId ` set (getAllConnectedClients
        (after (run (after (join s_two ''b'' (Str ''r'') (Str ''u''))) [FetchMessages ''b'' (Str ''r'')])) (Str ''q''))
   \<and> emitted (disconnecting
        (after (run (after (join s_two ''b'' (Str ''r'') (Str ''u''))) [FetchMessages ''b'' (Str ''r'')])) ''a'')
      = [\<lparr>target = ToRoomExcept (Str ''q'') ''a'', recipients = [], payload = DISCONNECTED ''a'' Undefined\<rparr>]"
proof -
  have h: "''a'' \<in> set (rooms s_two (Str ''r''))" "user_of s_two ''a'' = Str ''u''"
    "''a'' \<in> sockets s_two" "''a'' \<noteq> ''b''"
    "\<forall>ev \<in> set [FetchMessages ''b'' (Str ''r'')]. \<not> joins ''a'' ev"
    by (simp_all add: s_two_def eval_defs)
  have q: "''a'' \<in> set (rooms s_two (Str ''q''))"
    by (simp add: s_two_def eval_defs)
  have d: "emitted (disconnecting
        (after (run (after (join s_two ''b'' (Str ''r'') (Str ''u''))) [FetchMessages ''b'' (Str ''r'')])) ''a'')
      = [\<lparr>target = ToRoomExcept (Str ''q'') ''a'', recipients = [], payload = DISCONNECTED ''a'' Undefined\<rparr>]"
    by (simp add: s_two_def eval_defs)
  show ?thesis
    using eviction_is_global [OF h] h(1-4) q d by simp
qed

subsection \<open>The disconnected notice\<close>

lemma disconnecting_loop_silent:
  "roomId \<notin> set rs \<or> roomId = Str sid \<or> hasOtherConnections s sid roomId \<Longrightarrow>
   filter (\<lambda>e. target e = ToRoomExcept roomId sid) (emitted (disconnecting_loop sid rs s)) = []"
proof (induction rs arbitrary: s)
  case Nil
  show ?case by simp
next
  case (Cons r rs)
  let ?s1 = "after (disconnecting_room s sid r)"
  have one: "filter (\<lambda>e. target e = ToRoomExcept roomId sid) (emitted (disconnecting_room s sid r)) = []"
    using Cons.prems by (auto simp: disconnecting_room_emitted target_socket_to)
  have "roomId \<notin> set rs \<or> roomId = Str sid \<or> hasOtherConnections ?s1 sid roomId"
    using Cons.prems by (auto simp: disconnecting_room_test)
  from Cons.IH [OF this] one show ?case by simp
qed

lemma disconnecting_loop_no_raise:
  "\<forall>r \<in> set rs. r = Str sid \<or> \<not> inherited (key_of r) \<Longrightarrow>
   raised (disconnecting_loop sid rs s) = None"
  by (induction rs arbitrary: s) (auto simp: disconnecting_room_raised)

text \<open>
  Four disconnects. A connection that joined the room named by its own id: the handler
  skips that room, no event is emitted and the username stays in the membership set. A
  connection in the rooms toString and r: the handler raises in its pass over toString, so
  r gets no event and keeps the username. A connection whose room r holds a second
  connection that is also in the room named by the id of the first: the event is emitted
  and reaches nobody. A connection in the rooms \<open>''undefined''\<close> and \<open>undefined\<close> as v and
  then u, with another connection registered as u in the first: the pass over the first
  room changes nothing, the pass over the second removes u from the membership set the two
  rooms share.
\<close>

theorem private_room_disconnect_counterexample:
  "Str ''a'' \<in> set (socket_rooms s_private ''a'') \<and> ''a'' \<in> set (rooms s_private (Str ''a''))
   \<and> user_of s_private ''a'' = Str ''u''
   \<and> \<not> hasOtherConnections s_private ''a'' (Str ''a'')
   \<and> emitted (disconnecting s_private ''a'') = []
   \<and> Str ''u'' \<in> members_of (after (disconnecting s_private ''a'')) (Str ''a'')
   \<and> Str ''r'' \<in> set (socket_rooms s_abort ''a'')
   \<and> \<not> hasOtherConnections s_abort ''a'' (Str ''r'')
   \<and> raised (disconnecting s_abort ''a'') = Some TypeError
   \<and> map target (emitted (disconnecting s_abort ''a'')) = [ToRoomExcept (Str ''toString'') ''a'']
   \<and> Str ''u'' \<in> members_of (after (disconnecting s_abort ''a'')) (Str ''r'')
   \<and> rooms s_guest (Str ''r'') = [''a'', ''b'']
   \<and> \<not> hasOtherConnections s_guest ''a'' (Str ''r'')
   \<and> emitted (disconnecting s_guest ''a'') =
        [\<lparr>target = ToRoomExcept (Str ''r'') ''a'', recipients = [],
          payload = DISCONNECTED ''a'' (Str ''u'')\<rparr>]
   \<and> Str ''undefined'' \<in> set (socket_rooms s_keys ''a'')
   \<and> hasOtherConnections s_keys ''a'' (Str ''undefined'')
   \<and> roomUsers s_keys ''undefined'' = Some {Str ''v'', Str ''u''}
   \<and> roomUsers (after (disconnecting s_keys ''a'')) ''undefined'' = Some {Str ''v''}"
  by (simp add: s_private_def s_abort_def s_guest_def s_keys_def eval_defs insert_commute) auto

text \<open>
  C4, as amended. Let a connection disconnect while it is in a room other than the one
  named by its own id (\<open>socket.rooms\<close> is a \<open>Set\<close>: it lists each room once). If no other
  connection of the room has its username and the handler raises no error, exactly one
  disconnected event is emitted for the room, with \<open>socket.to(roomId)\<close> and carrying the
  connection id and the username, and the username is no longer in the room's membership
  set. The event is delivered to the connections of the room that are not in the room named
  by the id of the disconnecting connection: to every other connection of the room, when
  that room holds the disconnecting connection alone. If another connection of the room has the username, no disconnected event is emitted
  for the room and the handler's pass over the room leaves the state as it is; after the
  whole handler the room's three dictionary entries are unchanged, provided no other room
  of the connection shares the room's dictionary key. The handler raises no error when
  none of the connection's rooms, its own apart, is named as an inherited property.
\<close>

theorem disconnect_notice:
  assumes "roomId \<in> set (socket_rooms s sid)" and "roomId \<noteq> Str sid"
    and "distinct (socket_rooms s sid)"
  shows "(\<not> hasOtherConnections s sid roomId \<and> raised (disconnecting s sid) = None \<longrightarrow>
            filter (\<lambda>e. target e = ToRoomExcept roomId sid) (emitted (disconnecting s sid)) =
              [socket_to s sid roomId (DISCONNECTED sid (user_of s sid))]
            \<and> user_of s sid \<notin> members_of (after (disconnecting s sid)) roomId)
       \<and> (hasOtherConnections s sid roomId \<longrightarrow>
            filter (\<lambda>e. target e = ToRoomExcept roomId sid) (emitted (disconnecting s sid)) = []
            \<and> disconnecting_room s sid roomId = returns s []
            \<and> ((\<forall>r \<in> set (socket_rooms s sid). key_of r = key_of roomId \<longrightarrow> r = roomId) \<longrightarrow>
                 roomUsers (after (disconnecting s sid)) (key_of roomId) = roomUsers s (key_of roomId)
               \<and> roomCodeMap (after (disconnecting s sid)) (key_of roomId) = roomCodeMap s (key_of roomId)
               \<and> roomMessages (after (disconnecting s sid)) (key_of roomId) = roomMessages s (key_of roomId)))
       \<and> ((\<forall>r \<in> set (socket_rooms s sid). r = Str sid \<or> \<not> inherited (key_of r)) \<longrightarrow>
            raised (disconnecting s sid) = None)
       \<and> set (recipients (socket_to s sid roomId (DISCONNECTED sid (user_of s sid)))) =
            set (rooms s roomId) - set (rooms s (Str sid))
       \<and> (set (rooms s (Str sid)) = {sid} \<longrightarrow>
            set (recipients (socket_to s sid roomId (DISCONNECTED sid (user_of s sid)))) =
              set (rooms s roomId) - {sid})"
proof -
  have reach: "set (recipients (socket_to s sid roomId p)) =
      set (rooms s roomId) - set (rooms s (Str sid))" for p
    by (auto simp: socket_to_def)
  have others: "set (recipients (socket_to s sid roomId p)) = set (rooms s roomId) - {sid}"
    if "set (rooms s (Str sid)) = {sid}" for p
    using that by (simp add: reach)
  have out: "filter (\<lambda>e. target e = ToRoomExcept roomId sid) (emitted (disconnecting s sid)) =
       [socket_to s sid roomId (DISCONNECTED sid (user_of s sid))]"
    if "\<not> hasOtherConnections s sid roomId" "raised (disconnecting s sid) = None"
    using disconnecting_loop_out [OF assms(3), of sid s roomId] assms(1,2) that
    by (simp add: disconnecting_state)
  have gone: "user_of s sid \<notin> members_of (after (disconnecting s sid)) roomId"
    if "\<not> hasOtherConnections s sid roomId" "raised (disconnecting s sid) = None"
    using disconnecting_loop_removes [OF assms(1,2) that(1)] that(2)
    by (simp add: members_of_disconnecting disconnecting_state)
  have silent: "filter (\<lambda>e. target e = ToRoomExcept roomId sid) (emitted (disconnecting s sid)) = []"
    if "hasOtherConnections s sid roomId"
    using disconnecting_loop_silent [of roomId "socket_rooms s sid" sid s] that
    by (simp add: disconnecting_state)
  have same: "roomUsers (after (disconnecting s sid)) (key_of roomId) = roomUsers s (key_of roomId)
      \<and> roomCodeMap (after (disconnecting s sid)) (key_of roomId) = roomCodeMap s (key_of roomId)
      \<and> roomMessages (after (disconnecting s sid)) (key_of roomId) = roomMessages s (key_of roomId)"
    if h: "hasOtherConnections s sid roomId"
      and k: "\<forall>r \<in> set (socket_rooms s sid). key_of r = key_of roomId \<longrightarrow> r = roomId"
  proof -
    have "\<forall>r \<in> set (socket_rooms s sid). key_of r = key_of roomId \<longrightarrow>
        r = Str sid \<or> hasOtherConnections s sid r"
      using h k by auto
    from disconnecting_loop_untouched [OF this] show ?thesis
      by (simp add: disconnecting_state)
  qed
  have pass: "disconnecting_room s sid roomId = returns s []" if "hasOtherConnections s sid roomId"
    using that by (simp add: disconnecting_room_skip)
  have quiet: "raised (disconnecting s sid) = None"
    if "\<forall>r \<in> set (socket_rooms s sid). r = Str sid \<or> \<not> inherited (key_of r)"
    using disconnecting_loop_no_raise [OF that] by (simp add: disconnecting_state)
  show ?thesis
    using out gone silent same pass quiet reach others by blast
qed

text \<open>
  Both cases: the only connection of u in room r, and one of two connections of u in r,
  where the event would go to the other one.
\<close>

theorem disconnect_notice_witness:
  "Str ''r'' \<in> set (socket_rooms s_ab ''a'') \<and> Str ''r'' \<noteq> Str ''a''
   \<and> distinct (socket_rooms s_ab ''a'') \<and> \<not> hasOtherConnections s_ab ''a'' (Str ''r'')
   \<and> raised (disconnecting s_ab ''a'') = None
   \<and> filter (\<lambda>e. target e = ToRoomExcept (Str ''r'') ''a'') (emitted (disconnecting s_ab ''a'')) =
        [socket_to s_ab ''a'' (Str ''r'') (DISCONNECTED ''a'' (user_of s_ab ''a''))]
   \<and> user_of s_ab ''a'' \<notin> members_of (after (disconnecting s_ab ''a'')) (Str ''r'')
   \<and> Str ''r'' \<in> set (socket_rooms s_dup ''a'') \<and> distinct (socket_rooms s_dup ''a'')
   \<and> hasOtherConnections s_dup ''a'' (Str ''r'')
   \<and> filter (\<lambda>e. target e = ToRoomExcept (Str ''r'') ''a'') (emitted (disconnecting s_dup ''a'')) = []
   \<and> roomUsers (after (disconnecting s_dup ''a'')) ''r'' = roomUsers s_dup ''r''
   \<and> roomCodeMap (after (disconnecting s_dup ''a'')) ''r'' = roomCodeMap s_dup ''r''
   \<and> roomMessages (after (disconnecting s_dup ''a'')) ''r'' = roomMessages s_dup ''r''
   \<and> set (rooms s_dup (Str ''a'')) = {''a''}
   \<and> set (recipients (socket_to s_dup ''a'' (Str ''r'') (DISCONNECTED ''a'' (user_of s_dup ''a'')))) =
        {''b''}"
proof -
  have own: "set (rooms s_dup (Str ''a'')) = {''a''}" "set (rooms s_dup (Str ''r'')) = {''a'', ''b''}"
    by (simp_all add: s_dup_def eval_defs)

  have one: "Str ''r'' \<in> set (socket_rooms s_ab ''a'')" "Str ''r'' \<noteq> Str ''a''"
    "distinct (socket_rooms s_ab ''a'')" "\<not> hasOtherConnections s_ab ''a'' (Str ''r'')"
    by (simp_all add: s_ab_def eval_defs)
  have quiet: "\<forall>r \<in> set (socket_rooms s_ab ''a''). r = Str ''a'' \<or> \<not> inherited (key_of r)"
    by (simp add: s_ab_def eval_defs)
  have two: "Str ''r'' \<in> set (socket_rooms s_dup ''a'')" "distinct (socket_rooms s_dup ''a'')"
    "hasOtherConnections s_dup ''a'' (Str ''r'')"
    by (simp_all add: s_dup_def eval_defs)
  have key: "\<forall>r \<in> set (socket_rooms s_dup ''a''). key_of r = key_of (Str ''r'') \<longrightarrow> r = Str ''r''"
    by (simp add: s_dup_def eval_defs)
  have n: "raised (disconnecting s_ab ''a'') = None"
    using disconnect_notice [OF one(1,2,3)] quiet by blast
  have a: "filter (\<lambda>e. target e = ToRoomExcept (Str ''r'') ''a'') (emitted (disconnecting s_ab ''a'')) =
        [socket_to s_ab ''a'' (Str ''r'') (DISCONNECTED ''a'' (user_of s_ab ''a''))]
      \<and> user_of s_ab ''a'' \<notin> members_of (after (disconnecting s_ab ''a'')) (Str ''r'')"
    using disconnect_notice [OF one(1,2,3)] one(4) n by blast
  have b: "filter (\<lambda>e. target e = ToRoomExcept (Str ''r'') ''a'') (emitted (disconnecting s_dup ''a'')) = []
      \<and> roomUsers (after (disconnecting s_dup ''a'')) (key_of (Str ''r'')) = roomUsers s_dup (key_of (Str ''r''))
      \<and> roomCodeMap (after (disconnecting s_dup ''a'')) (key_of (Str ''r'')) = roomCodeMap s_dup (key_of (Str ''r''))
      \<and> roomMessages (after (disconnecting s_dup ''a'')) (key_of (Str ''r'')) = roomMessages s_dup (key_of (Str ''r''))"
    using disconnect_notice [OF two(1) one(2) two(2)] two(3) key by blast
  have c: "set (recipients (socket_to s_dup ''a'' (Str ''r'') (DISCONNECTED ''a'' (user_of s_dup ''a'')))) =
      set (rooms s_dup (Str ''r'')) - {''a''}"
    using disconnect_notice [OF two(1) one(2) two(2)] own(1) by blast
  have d: "set (recipients (socket_to s_dup ''a'' (Str ''r'') (DISCONNECTED ''a'' (user_of s_dup ''a'')))) =
      {''b''}"
    using c own(2) by auto
  show ?thesis
    using one two n a b own(1) d by simp
qed

subsection \<open>The life of a room's state\<close>

lemma disconnecting_room_keeps:
  assumes "no_room_state s roomId \<or> (\<exists>U. roomUsers s (key_of roomId) = Some U \<and> U \<noteq> {})"
  shows "no_room_state (after (disconnecting_room s sid r)) roomId \<or>
      (\<exists>U. roomUsers (after (disconnecting_room s sid r)) (key_of roomId) = Some U \<and> U \<noteq> {})"
proof (cases "key_of r = key_of roomId")
  case True
  with assms show ?thesis
    by (auto simp: no_room_state_def disconnecting_room_def split: option.splits)
next
  case False
  then have "key_of roomId \<noteq> key_of r" by simp
  with assms show ?thesis
    by (simp add: no_room_state_def disconnecting_room_other_key)
qed

lemma disconnecting_loop_keeps:
  "no_room_state s roomId \<or> (\<exists>U. roomUsers s (key_of roomId) = Some U \<and> U \<noteq> {}) \<Longrightarrow>
   no_room_state (after (disconnecting_loop sid rs s)) roomId \<or>
     (\<exists>U. roomUsers (after (disconnecting_loop sid rs s)) (key_of roomId) = Some U \<and> U \<noteq> {})"
proof (induction rs arbitrary: s)
  case Nil
  then show ?case by simp
next
  case (Cons r rs)
  from disconnecting_room_keeps [OF Cons.prems, of sid r]
    Cons.IH [OF disconnecting_room_keeps [OF Cons.prems, of sid r]]
  show ?case by simp
qed

lemma disconnecting_empties:
  assumes "roomUsers s (key_of roomId) = Some U" and "U \<noteq> {}"
    and "members_of (after (disconnecting s sid)) roomId = {}"
  shows "no_room_state (after (disconnecting s sid)) roomId"
proof -
  let ?l = "after (disconnecting_loop sid (socket_rooms s sid) s)"
  have "no_room_state s roomId \<or> (\<exists>U. roomUsers s (key_of roomId) = Some U \<and> U \<noteq> {})"
    using assms(1,2) by simp
  from disconnecting_loop_keeps [OF this, of sid "socket_rooms s sid"]
  have "no_room_state ?l roomId \<or> (\<exists>V. roomUsers ?l (key_of roomId) = Some V \<and> V \<noteq> {})" .
  moreover have "members_of ?l roomId = {}"
    using assms(3) by (simp add: members_of_disconnecting)
  ultimately have "no_room_state ?l roomId"
    by (auto simp: members_of_def)
  then show ?thesis by (simp add: no_room_state_def disconnecting_state)
qed

lemma rooms_okI:
  "(\<And>k U. roomUsers s k = Some U \<Longrightarrow> U \<noteq> {} \<and> roomMessages s k \<noteq> None) \<Longrightarrow> rooms_ok s"
  by (auto simp: rooms_ok_def)

lemma rooms_okD:
  "rooms_ok s \<Longrightarrow> roomUsers s k = Some U \<Longrightarrow> U \<noteq> {} \<and> roomMessages s k \<noteq> None"
  by (auto simp: rooms_ok_def)

lemma rooms_ok_cong:
  "roomUsers t = roomUsers s \<Longrightarrow> roomMessages t = roomMessages s \<Longrightarrow> rooms_ok t = rooms_ok s"
  by (simp add: rooms_ok_def)

lemma rooms_ok_join:
  assumes ok: "rooms_ok s"
  shows "rooms_ok (after (join s sid roomId uname))"
proof (rule rooms_okI)
  fix k U
  assume u: "roomUsers (after (join s sid roomId uname)) k = Some U"
  show "U \<noteq> {} \<and> roomMessages (after (join s sid roomId uname)) k \<noteq> None"
    using u rooms_okD [OF ok, of k U] rooms_okD [OF ok, of "key_of roomId"]
    by (auto simp: join_def Let_def socket_join_def evict_stores members_of_def
        split: option.splits if_splits)
qed

lemma rooms_ok_send: "rooms_ok s \<Longrightarrow> rooms_ok (after (send_message s roomId msg uname now stamp))"
  by (auto simp: rooms_ok_def send_message_def Let_def split: option.splits)

lemma rooms_ok_room: "rooms_ok s \<Longrightarrow> rooms_ok (after (disconnecting_room s sid r))"
proof (rule rooms_okI)
  fix k U
  assume ok: "rooms_ok s" and u: "roomUsers (after (disconnecting_room s sid r)) k = Some U"
  show "U \<noteq> {} \<and> roomMessages (after (disconnecting_room s sid r)) k \<noteq> None"
  proof (cases "k = key_of r")
    case True
    then show ?thesis
      using u rooms_okD [OF ok, of k]
      by (auto simp: disconnecting_room_def split: option.splits if_splits)
  next
    case False
    then show ?thesis
      using u rooms_okD [OF ok, of k U] by (simp add: disconnecting_room_other_key)
  qed
qed

lemma rooms_ok_loop: "rooms_ok s \<Longrightarrow> rooms_ok (after (disconnecting_loop sid rs s))"
  by (induction rs arbitrary: s) (simp_all add: rooms_ok_room)

lemma rooms_ok_step: "rooms_ok s \<Longrightarrow> rooms_ok (after (step s ev))"
proof (cases ev)
  case (Connection sid)
  assume "rooms_ok s"
  then show ?thesis
    by (simp add: Connection step_def connection_def socket_join_def rooms_ok_def)
next
  case (Join sid roomId uname)
  assume "rooms_ok s"
  then show ?thesis by (simp add: Join step_def rooms_ok_join)
next
  case (CodeChange sid roomId code)
  assume "rooms_ok s"
  then show ?thesis by (simp add: CodeChange step_def code_change_def store_code_def rooms_ok_def)
next
  case (SyncCode sid socketId roomId code)
  assume "rooms_ok s"
  then show ?thesis by (simp add: SyncCode step_def sync_code_def store_code_def rooms_ok_def Let_def)
next
  case (SendMessage sid roomId msg uname now stamp)
  assume "rooms_ok s"
  then show ?thesis by (simp add: SendMessage step_def rooms_ok_send)
next
  case (FetchMessages sid roomId)
  assume "rooms_ok s"
  then show ?thesis by (simp add: FetchMessages step_def fetch_messages_def)
next
  case (NoPayload sid h)
  assume "rooms_ok s"
  then show ?thesis by (simp add: NoPayload step_def)
next
  case (Disconnect sid)
  assume ok: "rooms_ok s"
  have "rooms_ok (after (disconnect s sid)) =
      rooms_ok (after (disconnecting_loop sid (socket_rooms s sid) s))"
    by (rule rooms_ok_cong) (simp_all add: disconnect_fields disconnecting_state)
  then show ?thesis
    using ok by (simp add: Disconnect step_def rooms_ok_loop)
qed

lemma rooms_ok_run: "rooms_ok s \<Longrightarrow> rooms_ok (after (run s evs))"
  by (induction evs arbitrary: s) (simp_all add: rooms_ok_step)

lemma rooms_ok_init: "rooms_ok init"
  by (simp add: rooms_ok_def init_def)

text \<open>
  Room r has no members. A code change for r stores the code, and a send-message for r
  stores the message; neither creates a membership set. Under the name \<open>__proto__\<close> a code
  change stores nothing, and a send-message to the room toString raises and stores nothing.
\<close>

theorem orphan_state_counterexample:
  "members_of s_a (Str ''r'') = {}
   \<and> roomCodeMap (after (step s_a (CodeChange ''a'' (Str ''r'') (Str ''x'')))) ''r'' = Some (Str ''x'')
   \<and> roomUsers (after (step s_a (CodeChange ''a'' (Str ''r'') (Str ''x'')))) ''r'' = None
   \<and> roomMessages (after (step s_a (SendMessage ''a'' (Str ''r'') (Str ''hi'') (Str ''u'') 5 ''t''))) ''r''
       = Some [\<lparr>m_id = 5, m_username = Str ''u'', m_message = Str ''hi'', m_timestamp = ''t''\<rparr>]
   \<and> roomUsers (after (step s_a (SendMessage ''a'' (Str ''r'') (Str ''hi'') (Str ''u'') 5 ''t''))) ''r'' = None
   \<and> roomCodeMap (after (step s_a (CodeChange ''a'' (Str ''__proto__'') (Str ''x'')))) ''__proto__'' = None
   \<and> step s_a (SendMessage ''a'' (Str ''toString'') (Str ''hi'') (Str ''u'') 5 ''t'') = throws s_a []"
  by (simp add: s_a_def eval_defs)

text \<open>
  C1, as amended. When the disconnecting handler leaves without members a room that had
  some, none of the three dictionaries has an entry for the room afterwards. In every state
  the server reaches, a membership set that exists is not empty and comes with a message
  log. Code and messages, however, are stored without a look at the membership: a code
  change stores its code under any room id but \<open>__proto__\<close>, and a send-message to any room
  whose id is not the name of an inherited property raises no error and leaves a log for
  the room.
\<close>

theorem room_teardown:
  "(roomUsers s (key_of roomId) = Some U \<and> U \<noteq> {}
      \<and> members_of (after (disconnecting s sid)) roomId = {}
     \<longrightarrow> no_room_state (after (disconnecting s sid)) roomId)
   \<and> (roomUsers (after (run init evs)) k = Some V
        \<longrightarrow> V \<noteq> {} \<and> roomMessages (after (run init evs)) k \<noteq> None)
   \<and> (key_of roomId \<noteq> ''__proto__'' \<longrightarrow>
        roomCodeMap (after (code_change s sid roomId code)) (key_of roomId) = Some code)
   \<and> (\<not> inherited (key_of roomId) \<longrightarrow>
        raised (send_message s roomId msg uname now stamp) = None
        \<and> roomMessages (after (send_message s roomId msg uname now stamp)) (key_of roomId) \<noteq> None)"
  using disconnecting_empties [of s roomId U sid]
    rooms_okD [OF rooms_ok_run [OF rooms_ok_init, of evs], of k V]
  by (auto simp: code_change_def store_code_def send_message_def Let_def)

text \<open>
  The last member of room r disconnects; a code change and a send-message for r in the
  initial state.
\<close>

theorem room_teardown_witness:
  "roomUsers s_ab (key_of (Str ''r'')) = Some {Str ''u''} \<and> {Str ''u''} \<noteq> {}
   \<and> members_of (after (disconnecting s_ab ''a'')) (Str ''r'') = {}
   \<and> no_room_state (after (disconnecting s_ab ''a'')) (Str ''r'')
   \<and> roomUsers (after (run init [Connection ''a'', Connection ''b'', Join ''a'' (Str ''r'') (Str ''u'')])) ''r''
       = Some {Str ''u''}
   \<and> roomMessages (after (run init [Connection ''a'', Connection ''b'', Join ''a'' (Str ''r'') (Str ''u'')])) ''r''
       \<noteq> None
   \<and> key_of (Str ''r'') \<noteq> ''__proto__'' \<and> \<not> inherited (key_of (Str ''r''))
   \<and> roomCodeMap (after (code_change init ''a'' (Str ''r'') (Str ''x''))) ''r'' = Some (Str ''x'')
   \<and> raised (send_message init (Str ''r'') (Str ''hi'') (Str ''u'') 5 ''t'') = None
   \<and> roomMessages (after (send_message init (Str ''r'') (Str ''hi'') (Str ''u'') 5 ''t'')) ''r'' \<noteq> None"
proof -
  have h: "roomUsers s_ab (key_of (Str ''r'')) = Some {Str ''u''}"
    "members_of (after (disconnecting s_ab ''a'')) (Str ''r'') = {}"
    by (simp_all add: s_ab_def eval_defs)
  have u: "roomUsers (after (run init [Connection ''a'', Connection ''b'',
      Join ''a'' (Str ''r'') (Str ''u'')])) ''r'' = Some {Str ''u''}"
    by (simp add: eval_defs)
  have k: "key_of (Str ''r'') \<noteq> ''__proto__''" "\<not> inherited (key_of (Str ''r''))"
    by (simp_all add: inherited_def inherited_names_def)
  show ?thesis
    using room_teardown [of s_ab "Str ''r''" "{Str ''u''}" "''a''"
        "[Connection ''a'', Connection ''b'', Join ''a'' (Str ''r'') (Str ''u'')]" "''r''" "{Str ''u''}"]
      room_teardown [of init "Str ''r''" "{}" "''a''" "[]" "''r''" "{}" "Str ''x''" "Str ''hi''"
        "Str ''u''" 5 "''t''"]
      h u k
    by simp
qed

subsection \<open>Two connections of one user\<close>

lemma two_inv_init: "two_inv c1 c2 roomId uname init"
  by (simp add: two_inv_def init_def members_of_def)

lemma two_invD:
  assumes "two_inv c1 c2 roomId uname s"
  shows "set (rooms s roomId) \<subseteq> {c1, c2}"
    and "\<And>c. c \<in> set (rooms s roomId) \<Longrightarrow> user_of s c = uname \<and> c \<in> sockets s"
    and "\<And>c. c = c1 \<or> c = c2 \<Longrightarrow> (roomId \<in> set (socket_rooms s c)) = (c \<in> set (rooms s roomId))"
    and "\<And>c. c = c1 \<or> c = c2 \<Longrightarrow> set (socket_rooms s c) \<subseteq> {Str c, roomId}"
    and "members_of s roomId = (if rooms s roomId = [] then {} else {uname})"
  using assms unfolding two_inv_def by blast+

lemma two_invI:
  assumes "set (rooms s roomId) \<subseteq> {c1, c2}"
    and "\<And>c. c \<in> set (rooms s roomId) \<Longrightarrow> user_of s c = uname \<and> c \<in> sockets s"
    and "\<And>c. c = c1 \<or> c = c2 \<Longrightarrow> (roomId \<in> set (socket_rooms s c)) = (c \<in> set (rooms s roomId))"
    and "\<And>c. c = c1 \<or> c = c2 \<Longrightarrow> set (socket_rooms s c) \<subseteq> {Str c, roomId}"
    and "members_of s roomId = (if rooms s roomId = [] then {} else {uname})"
  shows "two_inv c1 c2 roomId uname s"
  using assms unfolding two_inv_def by blast

lemma two_inv_connection:
  assumes inv: "two_inv c1 c2 roomId uname s" and c: "c = c1 \<or> c = c2"
    and r: "roomId \<noteq> Str c1" "roomId \<noteq> Str c2"
  shows "two_inv c1 c2 roomId uname (connection s c)"
proof (rule two_invI)
  have rc: "roomId \<noteq> Str c" using c r by auto
  have rooms: "rooms (connection s c) roomId = rooms s roomId"
    using rc by (simp add: connection_def socket_join_def)
  have users: "user_of (connection s c) x = user_of s x" for x
    by (simp add: connection_def socket_join_def user_of_def)
  have sr: "set (socket_rooms (connection s c) x) =
      set (socket_rooms s x) \<union> (if x = c then {Str c} else {})" for x
    by (auto simp: connection_def socket_join_def)
  show "set (rooms (connection s c) roomId) \<subseteq> {c1, c2}"
    using two_invD(1) [OF inv] by (simp add: rooms)
  show "user_of (connection s c) x = uname \<and> x \<in> sockets (connection s c)"
    if "x \<in> set (rooms (connection s c) roomId)" for x
    using two_invD(2) [OF inv, of x] that
    by (simp add: rooms users) (simp add: connection_def socket_join_def)
  show "(roomId \<in> set (socket_rooms (connection s c) x)) = (x \<in> set (rooms (connection s c) roomId))"
    if "x = c1 \<or> x = c2" for x
    using two_invD(3) [OF inv that] rc by (auto simp: rooms sr)
  show "set (socket_rooms (connection s c) x) \<subseteq> {Str x, roomId}" if "x = c1 \<or> x = c2" for x
    using two_invD(4) [OF inv that] by (auto simp: sr split: if_splits)
  show "members_of (connection s c) roomId =
      (if rooms (connection s c) roomId = [] then {} else {uname})"
    using two_invD(5) [OF inv] by (simp add: rooms) (simp add: connection_def socket_join_def members_of_def)
qed

lemma two_inv_join:
  assumes inv: "two_inv c1 c2 roomId uname s" and c: "c = c1 \<or> c = c2"
    and live: "c \<in> sockets s" and key: "\<not> inherited (key_of roomId)"
  shows "two_inv c1 c2 roomId uname (after (join s c roomId uname))"
proof -
  let ?s1 = "evict c roomId uname (rooms s roomId) s"
  let ?s' = "after (join s c roomId uname)"
  have sub: "set (rooms ?s1 roomId) \<subseteq> set (rooms s roomId)"
    by (rule evict_rooms_subset)
  have ssub: "set (socket_rooms ?s1 x) \<subseteq> set (socket_rooms s x)" for x
    by (rule evict_socket_rooms_subset)
  have gone: "e \<notin> set (rooms ?s1 roomId) \<and> roomId \<notin> set (socket_rooms ?s1 e)"
    if e: "e = c1 \<or> e = c2" and ne: "e \<noteq> c" for e
  proof (cases "e \<in> set (rooms s roomId)")
    case True
    from two_invD(2) [OF inv True] have u: "user_of s e = uname" and l: "e \<in> sockets s"
      by simp_all
    from evict_evicts [OF True u l ne, of roomId] evict_leaves [OF True u l ne, of roomId]
    show ?thesis by simp
  next
    case False
    with two_invD(3) [OF inv e] have "roomId \<notin> set (socket_rooms s e)" by simp
    with False sub ssub [of e] show ?thesis by blast
  qed
  have only: "set (rooms ?s1 roomId) \<subseteq> {c}"
  proof
    fix x assume x: "x \<in> set (rooms ?s1 roomId)"
    with sub have "x \<in> set (rooms s roomId)" by blast
    with two_invD(1) [OF inv] have "x = c1 \<or> x = c2" by blast
    with gone [of x] x show "x \<in> {c}" by blast
  qed
  have rooms': "set (rooms ?s' roomId) = {c}"
    using only unfolding join_rooms_set by blast
  have ne: "rooms ?s' roomId \<noteq> []"
    using rooms' by (cases "rooms ?s' roomId") simp_all
  have user: "user_of ?s' c = uname"
    by (simp add: user_of_def join_userSocketMap)
  have "members_of s roomId \<subseteq> {uname}"
    using two_invD(5) [OF inv] by (simp split: if_splits)
  moreover have "raised (join s c roomId uname) = None"
    using key by (simp add: join_raised)
  ultimately have mem: "members_of ?s' roomId = {uname}"
    by (auto simp: join_members)
  show ?thesis
  proof (rule two_invI)
    show "set (rooms ?s' roomId) \<subseteq> {c1, c2}"
      using rooms' c by blast
    show "user_of ?s' x = uname \<and> x \<in> sockets ?s'" if "x \<in> set (rooms ?s' roomId)" for x
    proof -
      from that rooms' have "x = c" by blast
      then show ?thesis using user live by (simp add: join_sockets)
    qed
    show "(roomId \<in> set (socket_rooms ?s' x)) = (x \<in> set (rooms ?s' roomId))"
      if x: "x = c1 \<or> x = c2" for x
    proof (cases "x = c")
      case True
      then show ?thesis using rooms' by (simp add: join_socket_rooms_set)
    next
      case False
      with gone [OF x False] rooms' show ?thesis by (simp add: join_socket_rooms_set)
    qed
    show "set (socket_rooms ?s' x) \<subseteq> {Str x, roomId}" if x: "x = c1 \<or> x = c2" for x
    proof (cases "x = c")
      case True
      with two_invD(4) [OF inv x] ssub [of c] show ?thesis
        unfolding join_socket_rooms_set by auto
    next
      case False
      with two_invD(4) [OF inv x] ssub [of x] show ?thesis
        unfolding join_socket_rooms_set by auto
    qed
    show "members_of ?s' roomId = (if rooms ?s' roomId = [] then {} else {uname})"
      using mem ne by simp
  qed
qed

lemma removeAll_nonempty: "(removeAll c xs \<noteq> []) = (\<exists>x \<in> set xs. x \<noteq> c)"
  by (induction xs) auto

lemma two_inv_disconnect:
  assumes inv: "two_inv c1 c2 roomId uname s" and c: "c = c1 \<or> c = c2"
    and r: "roomId \<noteq> Str c1" "roomId \<noteq> Str c2" and key: "\<not> inherited (key_of roomId)"
  shows "two_inv c1 c2 roomId uname (after (disconnect s c))"
proof -
  let ?s' = "after (disconnect s c)"
  let ?l = "after (disconnecting_loop c (socket_rooms s c) s)"
  have rc: "roomId \<noteq> Str c" using c r by auto
  have "\<forall>r \<in> set (socket_rooms s c). r = Str c \<or> \<not> inherited (key_of r)"
    using two_invD(4) [OF inv c] key by auto
  from disconnecting_loop_no_raise [OF this]
  have quiet: "raised (disconnecting s c) = None"
    by (simp add: disconnecting_state)
  note fields = disconnect_done [OF quiet]
  have dmem: "members_of (after (disconnect s c)) roomId =
      members_of (after (disconnecting_loop c (socket_rooms s c) s)) roomId"
    by (simp add: members_of_def disconnect_fields disconnecting_state)
  have users: "user_of ?s' x = user_of s x" if "x \<noteq> c" for x
    using that by (simp add: user_of_def fields)
  have mem: "members_of ?l roomId = (if removeAll c (rooms s roomId) = [] then {} else {uname})"
  proof (cases "c \<in> set (rooms s roomId)")
    case True
    then have sr: "roomId \<in> set (socket_rooms s c)"
      using two_invD(3) [OF inv c] by simp
    have uc: "user_of s c = uname"
      using two_invD(2) [OF inv True] by simp
    have old: "members_of s roomId = {uname}"
      using two_invD(5) [OF inv] True by auto
    have other: "hasOtherConnections s c roomId = (removeAll c (rooms s roomId) \<noteq> [])"
    proof -
      have "hasOtherConnections s c roomId = (\<exists>x \<in> set (rooms s roomId). x \<noteq> c)"
        using two_invD(2) [OF inv] uc by (auto simp: hasOtherConnections_def list_ex_iff)
      then show ?thesis by (simp add: removeAll_nonempty)
    qed
    show ?thesis
    proof (cases "hasOtherConnections s c roomId")
      case True
      have "\<forall>r \<in> set (socket_rooms s c). key_of r = key_of roomId \<longrightarrow>
          r = Str c \<or> hasOtherConnections s c r"
        using two_invD(4) [OF inv c] True by auto
      from disconnecting_loop_untouched [OF this]
      have "members_of ?l roomId = members_of s roomId" by (simp add: members_of_def)
      then show ?thesis using old other True by simp
    next
      case False
      from disconnecting_loop_removes [OF sr rc False] quiet
      have "uname \<notin> members_of ?l roomId" by (simp add: uc disconnecting_state)
      moreover have "members_of ?l roomId \<subseteq> {uname}"
        using disconnecting_loop_members [of c "socket_rooms s c" s roomId] old by simp
      ultimately have "members_of ?l roomId = {}" by blast
      then show ?thesis using other False by simp
    qed
  next
    case False
    then have "roomId \<notin> set (socket_rooms s c)"
      using two_invD(3) [OF inv c] by simp
    then have "\<forall>r \<in> set (socket_rooms s c). key_of r = key_of roomId \<longrightarrow>
          r = Str c \<or> hasOtherConnections s c r"
      using two_invD(4) [OF inv c] by auto
    from disconnecting_loop_untouched [OF this]
    have "members_of ?l roomId = members_of s roomId" by (simp add: members_of_def)
    then show ?thesis using two_invD(5) [OF inv] False by simp
  qed
  show ?thesis
  proof (rule two_invI)
    show "set (rooms ?s' roomId) \<subseteq> {c1, c2}"
      using two_invD(1) [OF inv] by (auto simp: fields)
    show "user_of ?s' x = uname \<and> x \<in> sockets ?s'" if "x \<in> set (rooms ?s' roomId)" for x
    proof -
      from that have x: "x \<in> set (rooms s roomId)" "x \<noteq> c" by (simp_all add: fields)
      with two_invD(2) [OF inv x(1)] users [OF x(2)] show ?thesis
        by (simp add: fields)
    qed
    show "(roomId \<in> set (socket_rooms ?s' x)) = (x \<in> set (rooms ?s' roomId))"
      if "x = c1 \<or> x = c2" for x
      using two_invD(3) [OF inv that] by (simp add: fields)
    show "set (socket_rooms ?s' x) \<subseteq> {Str x, roomId}" if "x = c1 \<or> x = c2" for x
      using two_invD(4) [OF inv that] by (simp add: fields)
    show "members_of ?s' roomId = (if rooms ?s' roomId = [] then {} else {uname})"
      using mem by (simp add: fields dmem)
  qed
qed

lemma two_inv_step:
  assumes inv: "two_inv c1 c2 roomId uname s" and ev: "two_connection_event c1 c2 roomId uname ev"
    and r: "roomId \<noteq> Str c1" "roomId \<noteq> Str c2" and key: "\<not> inherited (key_of roomId)"
  shows "two_inv c1 c2 roomId uname (after (step s ev))"
proof (cases ev)
  case (Connection sid)
  with ev have "sid = c1 \<or> sid = c2" by simp
  from two_inv_connection [OF inv this r] inv show ?thesis
    by (simp add: Connection step_def)
next
  case (Join sid rm u)
  with ev have c: "sid = c1 \<or> sid = c2" and e: "rm = roomId" "u = uname" by simp_all
  show ?thesis
    using two_inv_join [OF inv c _ key] inv by (simp add: Join e step_def)
next
  case (Disconnect sid)
  with ev have "sid = c1 \<or> sid = c2" by simp
  from two_inv_disconnect [OF inv this r key] inv show ?thesis
    by (simp add: Disconnect step_def)
qed (use ev in simp_all)

lemma two_inv_run:
  "two_inv c1 c2 roomId uname s \<Longrightarrow> \<forall>ev \<in> set evs. two_connection_event c1 c2 roomId uname ev \<Longrightarrow>
   roomId \<noteq> Str c1 \<Longrightarrow> roomId \<noteq> Str c2 \<Longrightarrow> \<not> inherited (key_of roomId) \<Longrightarrow>
   two_inv c1 c2 roomId uname (after (run s evs))"
  by (induction evs arbitrary: s) (simp_all add: two_inv_step)

text \<open>
  Connection a joins the room named a as u and disconnects: u stays in the membership set
  of the room although no connection is registered there. Connection a joins the room
  constructor as u: the handler raises after it registered a and put it in the room, and u
  is in no membership set.
\<close>

theorem private_room_membership_counterexample:
  "list_all (two_connection_event ''a'' ''b'' (Str ''a'') (Str ''u''))
       [Connection ''a'', Join ''a'' (Str ''a'') (Str ''u''), Disconnect ''a'']
   \<and> Str ''u'' \<in> members_of (after (run init [Connection ''a'', Join ''a'' (Str ''a'') (Str ''u''),
       Disconnect ''a''])) (Str ''a'')
   \<and> \<not> registered (after (run init [Connection ''a'', Join ''a'' (Str ''a'') (Str ''u''),
       Disconnect ''a''])) ''a'' (Str ''a'') (Str ''u'')
   \<and> \<not> registered (after (run init [Connection ''a'', Join ''a'' (Str ''a'') (Str ''u''),
       Disconnect ''a''])) ''b'' (Str ''a'') (Str ''u'')
   \<and> list_all (two_connection_event ''a'' ''b'' (Str ''constructor'') (Str ''u''))
       [Connection ''a'', Join ''a'' (Str ''constructor'') (Str ''u'')]
   \<and> Str ''constructor'' \<noteq> Str ''a'' \<and> Str ''constructor'' \<noteq> Str ''b''
   \<and> raised (run init [Connection ''a'', Join ''a'' (Str ''constructor'') (Str ''u'')]) = Some TypeError
   \<and> registered (after (run init [Connection ''a'', Join ''a'' (Str ''constructor'') (Str ''u'')]))
        ''a'' (Str ''constructor'') (Str ''u'')
   \<and> Str ''u'' \<notin> members_of (after (run init [Connection ''a'',
        Join ''a'' (Str ''constructor'') (Str ''u'')])) (Str ''constructor'')"
  by (simp add: registered_def eval_defs)

text \<open>
  C6, as amended. Take two connections and a room whose id is neither the id of one of them
  nor the name of an inherited property. After any sequence of connects, joins of that room
  under one username and disconnects of the two connections, the username is in the room's
  membership set if and only if one of the two connections is registered to it in the room.
\<close>

theorem membership_tracks_connections:
  assumes "roomId \<noteq> Str c1" and "roomId \<noteq> Str c2" and "\<not> inherited (key_of roomId)"
    and "\<forall>ev \<in> set evs. two_connection_event c1 c2 roomId uname ev"
  shows "(uname \<in> members_of (after (run init evs)) roomId) =
         (registered (after (run init evs)) c1 roomId uname \<or>
          registered (after (run init evs)) c2 roomId uname)"
proof -
  let ?s = "after (run init evs)"
  have inv: "two_inv c1 c2 roomId uname ?s"
    using two_inv_init assms(4,1,2,3) by (rule two_inv_run)
  show ?thesis
  proof (cases "rooms ?s roomId")
    case Nil
    then show ?thesis using two_invD(5) [OF inv] by (simp add: registered_def)
  next
    case (Cons x xs)
    then have x: "x \<in> set (rooms ?s roomId)" by simp
    with two_invD(1) [OF inv] have "x = c1 \<or> x = c2" by blast
    moreover have "user_of ?s x = uname" using two_invD(2) [OF inv x] by simp
    ultimately have "registered ?s c1 roomId uname \<or> registered ?s c2 roomId uname"
      using x by (auto simp: registered_def)
    then show ?thesis using two_invD(5) [OF inv] Cons by simp
  qed
qed

text \<open>
  Both connections join room r as u, then the first disconnects.
\<close>

theorem membership_tracks_connections_witness:
  "Str ''r'' \<noteq> Str ''a'' \<and> Str ''r'' \<noteq> Str ''b'' \<and> \<not> inherited (key_of (Str ''r''))
   \<and> list_all (two_connection_event ''a'' ''b'' (Str ''r'') (Str ''u''))
         [Connection ''a'', Connection ''b'', Join ''a'' (Str ''r'') (Str ''u''),
          Join ''b'' (Str ''r'') (Str ''u''), Disconnect ''a'']
   \<and> Str ''u'' \<in> members_of (after (run init [Connection ''a'', Connection ''b'',
         Join ''a'' (Str ''r'') (Str ''u''), Join ''b'' (Str ''r'') (Str ''u''), Disconnect ''a''])) (Str ''r'')
   \<and> \<not> registered (after (run init [Connection ''a'', Connection ''b'',
         Join ''a'' (Str ''r'') (Str ''u''), Join ''b'' (Str ''r'') (Str ''u''), Disconnect ''a''])) ''a'' (Str ''r'') (Str ''u'')
   \<and> registered (after (run init [Connection ''a'', Connection ''b'',
         Join ''a'' (Str ''r'') (Str ''u''), Join ''b'' (Str ''r'') (Str ''u''), Disconnect ''a''])) ''b'' (Str ''r'') (Str ''u'')"
proof -
  have r: "\<not> registered (after (run init [Connection ''a'', Connection ''b'',
         Join ''a'' (Str ''r'') (Str ''u''), Join ''b'' (Str ''r'') (Str ''u''), Disconnect ''a''])) ''a'' (Str ''r'') (Str ''u'')"
    "registered (after (run init [Connection ''a'', Connection ''b'',
         Join ''a'' (Str ''r'') (Str ''u''), Join ''b'' (Str ''r'') (Str ''u''), Disconnect ''a''])) ''b'' (Str ''r'') (Str ''u'')"
    by (simp_all add: registered_def eval_defs)
  have k: "\<not> inherited (key_of (Str ''r''))"
    by (simp add: inherited_def inherited_names_def)
  show ?thesis
    using membership_tracks_connections [of "Str ''r''" "''a''" "''b''"
        "[Connection ''a'', Connection ''b'', Join ''a'' (Str ''r'') (Str ''u''),
          Join ''b'' (Str ''r'') (Str ''u''), Disconnect ''a'']" "Str ''u''"] r k
    by simp
qed

subsection \<open>The message log\<close>

lemma slice_last_slice_last: "slice_last n (slice_last n xs @ ys) = slice_last n (xs @ ys)"
  by (cases "length xs \<le> n") (simp_all add: slice_last_def add.commute)

lemma slice_last_append_long: "n \<le> length ys \<Longrightarrow> slice_last n (xs @ ys) = slice_last n ys"
  by (simp add: slice_last_def)

lemma send_message_raised:
  "raised (send_message s roomId msg uname now stamp) =
     (if roomMessages s (key_of roomId) = None \<and> inherited (key_of roomId)
      then Some TypeError else None)"
  by (simp add: send_message_def Let_def)

lemma send_message_fails:
  "roomMessages s (key_of roomId) = None \<Longrightarrow> inherited (key_of roomId) \<Longrightarrow>
   send_message s roomId msg uname now stamp = throws s []"
  by (simp add: send_message_def Let_def)

lemma messages_of_send_message:
  "raised (send_message s roomId msg uname now stamp) = None \<Longrightarrow>
   messages_of (after (send_message s roomId msg uname now stamp)) roomId =
     slice_last 100 (messages_of s roomId @ [messageData_of (msg, uname, now, stamp)])"
  by (simp add: send_message_def messages_of_def messageData_of_def slice_last_def Let_def
      split: if_splits)

lemma send_message_keeps_log:
  "raised (send_message s roomId msg uname now stamp) = None \<Longrightarrow>
   roomMessages (after (send_message s roomId msg uname now stamp)) (key_of roomId) \<noteq> None"
  by (simp add: send_message_def Let_def split: if_splits)

lemma messages_of_send_all:
  "calls \<noteq> [] \<Longrightarrow> \<not> inherited (key_of roomId) \<Longrightarrow>
   messages_of (send_all s roomId calls) roomId =
     slice_last 100 (messages_of s roomId @ map messageData_of calls)"
proof (induction calls arbitrary: s)
  case Nil
  then show ?case by simp
next
  case (Cons c calls)
  obtain msg uname now stamp where c: "c = (msg, uname, now, stamp)"
    by (cases c) auto
  have ok: "raised (send_message s roomId msg uname now stamp) = None"
    using Cons.prems(2) by (simp add: send_message_raised)
  show ?case
  proof (cases "calls = []")
    case True
    then show ?thesis by (simp add: c messages_of_send_message [OF ok])
  next
    case False
    then show ?thesis
      using Cons.IH [OF False Cons.prems(2), of "after (send_message s roomId msg uname now stamp)"]
      by (simp add: c messages_of_send_message [OF ok] slice_last_slice_last)
  qed
qed

lemma roomMessages_send_all:
  "calls \<noteq> [] \<Longrightarrow> \<not> inherited (key_of roomId) \<Longrightarrow>
   roomMessages (send_all s roomId calls) (key_of roomId) \<noteq> None"
proof (induction calls arbitrary: s)
  case Nil
  then show ?case by simp
next
  case (Cons c calls)
  obtain msg uname now stamp where c: "c = (msg, uname, now, stamp)"
    by (cases c) auto
  have ok: "raised (send_message s roomId msg uname now stamp) = None"
    using Cons.prems(2) by (simp add: send_message_raised)
  show ?case
  proof (cases "calls = []")
    case True
    then show ?thesis using send_message_keeps_log [OF ok] by (simp add: c)
  next
    case False
    then show ?thesis
      using Cons.IH [OF False Cons.prems(2), of "after (send_message s roomId msg uname now stamp)"]
      by (simp add: c)
  qed
qed

lemma bounded_log:
  assumes "\<not> inherited (key_of roomId)" and "100 < length calls"
  shows "emitted (fetch_messages (send_all s roomId calls) sid roomId) =
        [socket_emit sid (FETCH_MESSAGES
           (Value (drop (length calls - 100) (map messageData_of calls))))]"
proof -
  from assms(2) have ne: "calls \<noteq> []" by auto
  have "messages_of (send_all s roomId calls) roomId =
       slice_last 100 (messages_of s roomId @ map messageData_of calls)"
    using ne assms(1) by (rule messages_of_send_all)
  also have "\<dots> = slice_last 100 (map messageData_of calls)"
    using assms(2) by (simp add: slice_last_append_long)
  finally have m: "messages_of (send_all s roomId calls) roomId =
      drop (length calls - 100) (map messageData_of calls)"
    by (simp add: slice_last_def)
  from roomMessages_send_all [OF ne assms(1), of s] m
  have "messages_read (send_all s roomId calls) roomId =
      Value (drop (length calls - 100) (map messageData_of calls))"
    by (auto simp: messages_read_def messages_of_def)
  then show ?thesis by (simp add: fetch_messages_def)
qed

lemma send_all_fails:
  "roomMessages s (key_of roomId) = None \<Longrightarrow> inherited (key_of roomId) \<Longrightarrow>
   send_all s roomId calls = s"
proof (induction calls)
  case Nil
  show ?case by simp
next
  case (Cons c calls)
  obtain msg uname now stamp where c: "c = (msg, uname, now, stamp)"
    by (cases c) auto
  from Cons show ?case by (simp add: c send_message_fails)
qed

text \<open>
  C2. A send-message to the room toString, which has no log yet: \<open>roomMessages[roomId]\<close>
  reads the function every object inherits under that name, so no log is created, and the
  call of \<open>push\<close> on the function raises. Nothing is stored and nothing is emitted. After 101
  such calls the server is in the state it started from, and fetch-messages answers with the
  inherited function, not with the last 100 messages.
\<close>

theorem inherited_room_log:
  "send_message init (Str ''toString'') (Str ''hi'') (Str ''bob'') 0 ''t'' = throws init []
   \<and> length (map (\<lambda>i. (Str ''hi'', Str ''bob'', int i, ''t'')) [0..<101]) = 101
   \<and> send_all init (Str ''toString'') (map (\<lambda>i. (Str ''hi'', Str ''bob'', int i, ''t'')) [0..<101]) = init
   \<and> emitted (fetch_messages
         (send_all init (Str ''toString'') (map (\<lambda>i. (Str ''hi'', Str ''bob'', int i, ''t'')) [0..<101]))
         ''a'' (Str ''toString'')) =
       [socket_emit ''a'' (FETCH_MESSAGES (Inherited ''toString''))]"
proof -
  have k: "roomMessages init (key_of (Str ''toString'')) = None" "inherited (key_of (Str ''toString''))"
    by (simp_all add: init_def inherited_def inherited_names_def)
  have f: "emitted (fetch_messages init ''a'' (Str ''toString'')) =
       [socket_emit ''a'' (FETCH_MESSAGES (Inherited ''toString''))]"
    using k by (simp add: fetch_messages_def messages_read_def)
  show ?thesis
    using send_message_fails [OF k] send_all_fails [OF k] f by simp
qed

subsection \<open>Message ids\<close>

text \<open>
  C9. The id of a message is the reading of \<open>Date.now()\<close>. Two send-message calls to room r
  handled within the same millisecond store two different messages with the same id.
\<close>

theorem message_id_collision:
  "messages_of (send_all init (Str ''r'')
       [(Str ''hi'', Str ''u'', 1700000000000, ''t1''), (Str ''yo'', Str ''v'', 1700000000000, ''t1'')])
     (Str ''r'') =
     [\<lparr>m_id = 1700000000000, m_username = Str ''u'', m_message = Str ''hi'', m_timestamp = ''t1''\<rparr>,
      \<lparr>m_id = 1700000000000, m_username = Str ''v'', m_message = Str ''yo'', m_timestamp = ''t1''\<rparr>]"
  by (simp add: eval_defs)

subsection \<open>Who receives a broadcast\<close>

text \<open>
  What the two handlers deliver. A code change is sent with \<open>socket.to(roomId)\<close>: to the
  connections of the room that are not in the room named by the id of the sender. A
  send-message that raises no error is sent with \<open>io.to(roomId)\<close>: to the whole room.
\<close>

lemma broadcast_recipients:
  "raised (code_change s sid roomId code) = None
   \<and> map payload (emitted (code_change s sid roomId code)) = [CODE_CHANGE (Value code)]
   \<and> set (receivers (emitted (code_change s sid roomId code))) =
       set (rooms s roomId) - set (rooms s (Str sid))
   \<and> (set (rooms s (Str sid)) = {sid} \<longrightarrow>
        set (receivers (emitted (code_change s sid roomId code))) = set (rooms s roomId) - {sid})
   \<and> (\<not> inherited (key_of roomId) \<longrightarrow>
        raised (send_message s roomId msg uname now stamp) = None)
   \<and> (raised (send_message s roomId msg uname now stamp) = None \<longrightarrow>
        map payload (emitted (send_message s roomId msg uname now stamp)) =
          [RECEIVE_MESSAGE (messageData_of (msg, uname, now, stamp))]
        \<and> set (receivers (emitted (send_message s roomId msg uname now stamp))) = set (rooms s roomId))"
  by (auto simp: code_change_def send_message_def receivers_def socket_to_def io_to_def
      messageData_of_def Let_def)

text \<open>
  C5. Three broadcasts that miss the connections they are meant for. Connections a and b
  are in room r and b is also in the room named a: a code change sent by a for r reaches
  nobody, since \<open>socket.to\<close> leaves out all connections of the room named by the id of the
  sender. Connection a is in room r and has been taken out of the room named a: its code
  change for r is delivered to a itself. Connection a is in the room toString: its
  send-message to that room raises before anything is emitted, so nobody receives the
  message.
\<close>

theorem broadcast_divergence:
  "rooms s_guest (Str ''r'') = [''a'', ''b'']
   \<and> receivers (emitted (step s_guest (CodeChange ''a'' (Str ''r'') (Str ''x'')))) = []
   \<and> rooms s_echo (Str ''r'') = [''a'']
   \<and> receivers (emitted (step s_echo (CodeChange ''a'' (Str ''r'') (Str ''x'')))) = [''a'']
   \<and> rooms s_inherited (Str ''toString'') = [''a'']
   \<and> step s_inherited (SendMessage ''a'' (Str ''toString'') (Str ''hi'') (Str ''u'') 5 ''t'')
        = throws s_inherited []"
  by (simp add: s_guest_def s_echo_def s_inherited_def eval_defs)

subsection \<open>Payloads with a missing field\<close>

text \<open>
  A code change without roomId stores its code under the key \<open>undefined\<close>; a join without
  username registers the connection under \<open>undefined\<close> and creates the room's membership
  set with \<open>undefined\<close> in it. A join of the room constructor without username raises, after
  the connection was registered and put in the room. An event without payload raises.
\<close>

theorem missing_field_counterexample:
  "roomCodeMap s_a ''undefined'' = None
   \<and> roomCodeMap (after (step s_a (CodeChange ''a'' Undefined (Str ''x'')))) ''undefined'' = Some (Str ''x'')
   \<and> userSocketMap s_a ''a'' = None
   \<and> userSocketMap (after (step s_a (Join ''a'' (Str ''r'') Undefined))) ''a'' = Some Undefined
   \<and> roomUsers (after (step s_a (Join ''a'' (Str ''r'') Undefined))) ''r'' = Some {Undefined}
   \<and> raised (step s_a (Join ''a'' (Str ''constructor'') Undefined)) = Some TypeError
   \<and> userSocketMap (after (step s_a (Join ''a'' (Str ''constructor'') Undefined))) ''a'' = Some Undefined
   \<and> rooms (after (step s_a (Join ''a'' (Str ''constructor'') Undefined))) (Str ''constructor'') = [''a'']
   \<and> step s_a (NoPayload ''a'' OnJoin) = throws s_a []
   \<and> step s_a (NoPayload ''a'' OnCodeChange) = throws s_a []"
  by (simp add: s_a_def eval_defs)

text \<open>
  C7, as amended. The handlers do not check their payloads: a field that is missing is read
  as \<open>undefined\<close> and the handler runs as for any other value. A code change without roomId
  raises no error and stores the code under the key \<open>undefined\<close>; a code change without code
  raises no error and, for a room id other than \<open>__proto__\<close>, overwrites the room's code with
  \<open>undefined\<close>. A join without username registers the connection under \<open>undefined\<close> and, for
  a room id that is not the name of an inherited property, raises no error and adds
  \<open>undefined\<close> to the room's membership set; a join without roomId raises no error and adds
  the username to the membership set kept under the key \<open>undefined\<close>. A send-message without
  roomId raises no error and leaves a log under the key \<open>undefined\<close>. A fetch-messages
  without roomId changes nothing and answers with that log; a sync-code without code
  changes nothing and raises no error. An event that arrives without any payload raises a
  \<open>TypeError\<close> and changes nothing.
\<close>

theorem missing_field_effects:
  "raised (code_change s sid Undefined code) = None
   \<and> roomCodeMap (after (code_change s sid Undefined code)) ''undefined'' = Some code
   \<and> raised (code_change s sid roomId Undefined) = None
   \<and> (key_of roomId \<noteq> ''__proto__'' \<longrightarrow>
        roomCodeMap (after (code_change s sid roomId Undefined)) (key_of roomId) = Some Undefined)
   \<and> userSocketMap (after (join s sid roomId Undefined)) sid = Some Undefined
   \<and> (\<not> inherited (key_of roomId) \<longrightarrow>
        raised (join s sid roomId Undefined) = None
        \<and> Undefined \<in> members_of (after (join s sid roomId Undefined)) roomId)
   \<and> raised (join s sid Undefined uname) = None
   \<and> uname \<in> members_of (after (join s sid Undefined uname)) Undefined
   \<and> raised (send_message s Undefined msg uname now stamp) = None
   \<and> roomMessages (after (send_message s Undefined msg uname now stamp)) ''undefined'' \<noteq> None
   \<and> fetch_messages s sid Undefined =
        returns s [socket_emit sid (FETCH_MESSAGES (Value (messages_of s Undefined)))]
   \<and> sync_code s socketId Undefined Undefined =
        returns s (if truthy_lookup (code_of s Undefined)
                   then [io_to s socketId (CODE_CHANGE (code_of s Undefined))] else [])
   \<and> after (sync_code s socketId roomId Undefined) = s
   \<and> raised (sync_code s socketId roomId Undefined) = None
   \<and> handle s (NoPayload sid h) = throws s []"
proof -
  have u: "\<not> inherited ''undefined''"
    by (simp add: inherited_def inherited_names_def)
  have j: "raised (join s sid roomId Undefined) = None
      \<and> Undefined \<in> members_of (after (join s sid roomId Undefined)) roomId"
    if "\<not> inherited (key_of roomId)"
    using that by (simp add: join_raised join_members)
  have ju: "raised (join s sid Undefined uname) = None
      \<and> uname \<in> members_of (after (join s sid Undefined uname)) Undefined"
    using u by (simp add: join_raised join_members)
  have f: "fetch_messages s sid Undefined =
      returns s [socket_emit sid (FETCH_MESSAGES (Value (messages_of s Undefined)))]"
    using u by (simp add: fetch_messages_def messages_read_def messages_of_def split: option.splits)
  have sm: "raised (send_message s Undefined msg uname now stamp) = None
      \<and> roomMessages (after (send_message s Undefined msg uname now stamp)) ''undefined'' \<noteq> None"
    using u by (simp add: send_message_def Let_def)
  have c: "raised (code_change s sid Undefined code) = None
      \<and> roomCodeMap (after (code_change s sid Undefined code)) ''undefined'' = Some code
      \<and> raised (code_change s sid roomId Undefined) = None
      \<and> (key_of roomId \<noteq> ''__proto__'' \<longrightarrow>
          roomCodeMap (after (code_change s sid roomId Undefined)) (key_of roomId) = Some Undefined)"
    by (simp add: code_change_def store_code_def)
  have sy: "sync_code s socketId Undefined Undefined =
        returns s (if truthy_lookup (code_of s Undefined)
                   then [io_to s socketId (CODE_CHANGE (code_of s Undefined))] else [])
      \<and> after (sync_code s socketId roomId Undefined) = s
      \<and> raised (sync_code s socketId roomId Undefined) = None"
    by (simp add: sync_code_def Let_def)
  have m: "userSocketMap (after (join s sid roomId Undefined)) sid = Some Undefined"
    by (simp add: join_userSocketMap)
  show ?thesis
    using c m j ju sm f sy by simp
qed

text \<open>
  A code change without code and a join without username, both for room r.
\<close>

theorem missing_field_effects_witness:
  "key_of (Str ''r'') \<noteq> ''__proto__'' \<and> \<not> inherited (key_of (Str ''r''))
   \<and> roomCodeMap (after (code_change s_ab ''a'' (Str ''r'') Undefined)) ''r'' = Some Undefined
   \<and> raised (join s_a ''a'' (Str ''r'') Undefined) = None
   \<and> Undefined \<in> members_of (after (join s_a ''a'' (Str ''r'') Undefined)) (Str ''r'')"
proof -
  have k: "key_of (Str ''r'') \<noteq> ''__proto__''" "\<not> inherited (key_of (Str ''r''))"
    by (simp_all add: inherited_def inherited_names_def)
  show ?thesis
    using missing_field_effects [of s_ab "''a''" "Str ''x''" "Str ''r''"]
      missing_field_effects [of s_a "''a''" "Str ''x''" "Str ''r''"] k
    by simp
qed

subsection \<open>The code snapshot\<close>

text \<open>
  Room r has the empty string as its code: a join emits the joined event only, and a
  sync-code with the empty string emits nothing. A code is stored for the room constructor:
  a join of that room raises and emits nothing. A sync-code whose socketId is the room r
  itself is delivered to both connections of the room. A sync-code for the room
  \<open>__proto__\<close> stores nothing and sends what the read of \<open>roomCodeMap\<close> finds there.
\<close>

theorem empty_code_counterexample:
  "roomCodeMap s_empty_code ''r'' = Some (Str [])
   \<and> map payload (emitted (step s_empty_code (Join ''b'' (Str ''r'') (Str ''v'')))) =
       [JOINED [\<lparr>c_socketId = ''a'', c_username = Str ''u''\<rparr>,
                \<lparr>c_socketId = ''b'', c_username = Str ''v''\<rparr>] (Str ''v'') ''b'']
   \<and> step s_empty_code (SyncCode ''a'' (Str ''b'') (Str ''r'') (Str [])) = returns s_empty_code []
   \<and> roomCodeMap s_constructor ''constructor'' = Some (Str ''x'')
   \<and> raised (step s_constructor (Join ''b'' (Str ''constructor'') (Str ''v''))) = Some TypeError
   \<and> emitted (step s_constructor (Join ''b'' (Str ''constructor'') (Str ''v''))) = []
   \<and> rooms s_guest (Str ''r'') = [''a'', ''b'']
   \<and> emitted (step s_guest (SyncCode ''a'' (Str ''r'') (Str ''r'') (Str ''y''))) =
       [\<lparr>target = ToRoom (Str ''r''), recipients = [''a'', ''b''],
         payload = CODE_CHANGE (Value (Str ''y''))\<rparr>]
   \<and> roomCodeMap (after (step s_ab (SyncCode ''a'' (Str ''b'') (Str ''__proto__'') (Str ''y''))))
        ''__proto__'' = None
   \<and> map payload (emitted (step s_ab (SyncCode ''a'' (Str ''b'') (Str ''__proto__'') (Str ''y'')))) =
       [CODE_CHANGE (Inherited ''__proto__'')]"
  by (simp add: s_empty_code_def s_constructor_def s_guest_def s_ab_def eval_defs)

text \<open>
  C8, as amended. A join of a room whose id is not the name of an inherited property and
  for which a code is stored raises no error and emits the joined broadcast and then, when
  the stored code is a non-empty string, one code-change event with that code to the joining
  connection alone; it emits nothing else. A sync-code that carries a code, for a room id
  other than \<open>__proto__\<close>, stores the code as the room's code and emits, when the code is a
  non-empty string, one code-change event with that code, addressed with
  \<open>io.to(socketId)\<close> and so delivered to every connection of the room named \<open>socketId\<close>;
  it emits nothing when the code is the empty string, and never anything else.
\<close>

theorem code_snapshot:
  "(\<not> inherited (key_of roomId) \<and> roomCodeMap s (key_of roomId) = Some c \<longrightarrow>
      raised (join s sid roomId uname) = None
      \<and> emitted (join s sid roomId uname) =
          io_to (after (join s sid roomId uname)) roomId
            (JOINED (getAllConnectedClients (after (join s sid roomId uname)) roomId) uname sid)
          # (if truthy c then [socket_emit sid (CODE_CHANGE (Value c))] else []))
   \<and> (code \<noteq> Undefined \<and> key_of roomId \<noteq> ''__proto__'' \<longrightarrow>
        sync_code s socketId roomId code =
          returns (s\<lparr>roomCodeMap := (roomCodeMap s)(key_of roomId \<mapsto> code)\<rparr>)
            (if truthy code
             then [\<lparr>target = ToRoom socketId, recipients = rooms s socketId,
                    payload = CODE_CHANGE (Value code)\<rparr>]
             else []))"
  by (simp add: join_raised join_emitted sync_code_def store_code_def Let_def code_of_def io_to_def)

text \<open>
  Room r has the code x: connection b joins it, and a sync-code for connection b carries
  the code y.
\<close>

theorem code_snapshot_witness:
  "\<not> inherited (key_of (Str ''r'')) \<and> roomCodeMap s_code (key_of (Str ''r'')) = Some (Str ''x'')
   \<and> Str ''y'' \<noteq> Undefined \<and> key_of (Str ''r'') \<noteq> ''__proto__''
   \<and> emitted (join s_code ''b'' (Str ''r'') (Str ''v'')) =
        [io_to (after (join s_code ''b'' (Str ''r'') (Str ''v''))) (Str ''r'')
           (JOINED (getAllConnectedClients (after (join s_code ''b'' (Str ''r'') (Str ''v''))) (Str ''r''))
              (Str ''v'') ''b''),
         socket_emit ''b'' (CODE_CHANGE (Value (Str ''x'')))]
   \<and> emitted (sync_code s_code (Str ''b'') (Str ''r'') (Str ''y'')) =
        [\<lparr>target = ToRoom (Str ''b''), recipients = [''b''],
          payload = CODE_CHANGE (Value (Str ''y''))\<rparr>]"
proof -
  have k: "\<not> inherited (key_of (Str ''r''))" "key_of (Str ''r'') \<noteq> ''__proto__''"
    by (simp_all add: inherited_def inherited_names_def)
  have c: "roomCodeMap s_code (key_of (Str ''r'')) = Some (Str ''x'')"
    and r: "rooms s_code (Str ''b'') = [''b'']"
    by (simp_all add: s_code_def eval_defs)
  show ?thesis
    using code_snapshot [of "Str ''r''" s_code "Str ''x''" "''b''" "Str ''v''" "Str ''y''" "Str ''b''"]
      k c r
    by simp
qed

end
